theory Spec2Isabelle
  imports Main "HOL-Library.Char_ord" "HOL-Library.List_Lexorder"
begin

section \<open>BlackRoad RSS aggregator: data model\<close>

text \<open>
  The model follows \<^verbatim>\<open>src/rss_aggregator.py\<close>. A Python string is modelled by the
  Isabelle string of its UTF-8 bytes: ASCII text is itself, \<^verbatim>\<open>text.encode()\<close> is the
  identity, and the bytewise comparison of TEXT in SQLite is the lexicographic order of
  \<open>HOL-Library.List_Lexorder\<close> over the character codes. The built-ins of Python that
  depend on the Unicode tables (\<^verbatim>\<open>str.lower\<close>, \<^verbatim>\<open>str.upper\<close>, \<^verbatim>\<open>str.strip\<close>) are
  taken from the environment; what they do on ASCII text is defined below.
\<close>

datatype FeedStatus = ACTIVE | PAUSED | ERROR

record AggregatorConfig =
  max_items_per_feed :: int
  dedupe_window_days :: int
  fetch_timeout :: int
  max_summary_length :: int

record Feed =
  feed_id :: string
  feed_name :: string
  feed_url :: string
  feed_category :: string
  feed_fetch_interval_min :: int
  feed_last_fetched :: "string option"
  feed_status :: FeedStatus
  feed_error_message :: "string option"
  feed_item_count :: nat
  feed_created_at :: string

record FeedItem =
  item_id :: string
  item_feed_id :: string
  item_title :: string
  item_url :: string
  item_summary :: string
  item_author :: string
  item_published_at :: string
  item_fingerprint :: string
  item_is_read :: bool
  item_is_bookmarked :: bool
  item_created_at :: string

text \<open>A raw item is the dictionary the fetcher returns for one entry of a feed.\<close>

type_synonym raw = "string \<rightharpoonup> string"

text \<open>
  The exceptions the model can raise. \<^verbatim>\<open>IntegrityError\<close> and \<^verbatim>\<open>OperationalError\<close>
  are those of \<^verbatim>\<open>sqlite3\<close>; \<^verbatim>\<open>OverflowError\<close> is what \<^verbatim>\<open>sqlite3\<close> raises when it
  is given an integer parameter that does not fit 64 bits. \<open>py_str\<close> is Python's
  \<^verbatim>\<open>str(e)\<close>: a \<^verbatim>\<open>KeyError\<close> prints its key quoted.
\<close>

datatype error =
    ValueError string
  | KeyError string
  | IntegrityError string
  | OperationalError string
  | OverflowError string
  | FetchError string

fun py_str :: "error \<Rightarrow> string" where
  "py_str (ValueError m) = m"
| "py_str (KeyError k) = [CHR 0x27] @ k @ [CHR 0x27]"
| "py_str (IntegrityError m) = m"
| "py_str (OperationalError m) = m"
| "py_str (OverflowError m) = m"
| "py_str (FetchError m) = m"

text \<open>The integers that \<^verbatim>\<open>sqlite3\<close> accepts as a parameter: signed, 64 bits.\<close>

definition sqlite_int :: "int \<Rightarrow> bool" where
  "sqlite_int n = (- (2 ^ 63) \<le> n \<and> n < 2 ^ 63)"

definition too_large :: error where
  "too_large = OverflowError ''Python int too large to convert to SQLite INTEGER''"

text \<open>
  A row of the full-text table \<^verbatim>\<open>feed_items_fts\<close>: rowid, title, summary, author.
\<close>

type_synonym fts_row = "nat \<times> string \<times> string \<times> string"

text \<open>
  The database: the table \<^verbatim>\<open>feeds\<close>, the table \<^verbatim>\<open>feed_items\<close> (each row with
  its implicit rowid) and the full-text table. \<open>clock\<close> and \<open>entropy\<close> count the
  calls made so far to \<^verbatim>\<open>_now()\<close> and \<^verbatim>\<open>uuid.uuid4()\<close>.
\<close>

record state =
  feeds :: "Feed list"
  feed_items :: "(nat \<times> FeedItem) list"
  feed_items_fts :: "fts_row list"
  clock :: nat
  entropy :: nat

text \<open>
  What the program takes from outside: the string built-ins \<^verbatim>\<open>str.lower\<close>,
  \<^verbatim>\<open>str.upper\<close> and \<^verbatim>\<open>str.strip\<close>, \<^verbatim>\<open>hashlib.sha256(text.encode()).hexdigest()\<close>,
  the values \<^verbatim>\<open>uuid.uuid4()\<close> and \<^verbatim>\<open>_now()\<close> return at their n-th call, the
  fetcher (\<open>Inl\<close> when it raises) and the query language of FTS5: a query string is
  either refused with an error or stands for a predicate on the three indexed columns of
  a row.
\<close>

record env =
  str_lower :: "string \<Rightarrow> string"
  str_upper :: "string \<Rightarrow> string"
  str_strip :: "string \<Rightarrow> string"
  sha256_hexdigest :: "string \<Rightarrow> string"
  uuid4 :: "nat \<Rightarrow> string"
  now :: "nat \<Rightarrow> string"
  fetcher :: "Feed \<Rightarrow> error + raw list"
  fts5_query :: "string \<Rightarrow> error + (string \<times> string \<times> string \<Rightarrow> bool)"

section \<open>Fingerprint generator\<close>

text \<open>
  What \<^verbatim>\<open>str.lower\<close>, \<^verbatim>\<open>str.upper\<close> and \<^verbatim>\<open>str.strip\<close> do on ASCII text: the 26
  letters change case, and the characters 9 to 13, 28 to 31 and the space are the
  whitespace. On other text Python follows the Unicode tables, which these definitions
  do not contain; \<open>python_on_ascii\<close> says of an environment that its built-ins are these
  on ASCII text.
\<close>

definition ascii_text :: "string \<Rightarrow> bool" where
  "ascii_text s = list_all (\<lambda>c. (of_char c :: nat) < 128) s"

definition ascii_uppercase :: string where
  "ascii_uppercase = ''ABCDEFGHIJKLMNOPQRSTUVWXYZ''"

definition ascii_lowercase :: string where
  "ascii_lowercase = ''abcdefghijklmnopqrstuvwxyz''"

definition ascii_isspace :: "char \<Rightarrow> bool" where
  "ascii_isspace c =
     (c \<in> set [CHR 0x09, CHR 0x0A, CHR 0x0B, CHR 0x0C, CHR 0x0D,
                CHR 0x1C, CHR 0x1D, CHR 0x1E, CHR 0x1F, CHR 0x20])"

definition lower_char :: "char \<Rightarrow> char" where
  "lower_char c =
     (case map_of (zip ascii_uppercase ascii_lowercase) c of Some d \<Rightarrow> d | None \<Rightarrow> c)"

definition upper_char :: "char \<Rightarrow> char" where
  "upper_char c =
     (case map_of (zip ascii_lowercase ascii_uppercase) c of Some d \<Rightarrow> d | None \<Rightarrow> c)"

definition ascii_lower :: "string \<Rightarrow> string" where
  "ascii_lower s = map lower_char s"

definition ascii_upper :: "string \<Rightarrow> string" where
  "ascii_upper s = map upper_char s"

definition ascii_strip :: "string \<Rightarrow> string" where
  "ascii_strip s = rev (dropWhile ascii_isspace (rev (dropWhile ascii_isspace s)))"

text \<open>
  \<^verbatim>\<open>text = f"{title.lower().strip()}{url.lower().strip()}"\<close>, then the first 16
  characters of the hexadecimal digest.
\<close>

definition python_on_ascii :: "env \<Rightarrow> bool" where
  "python_on_ascii e =
     (\<forall>s. ascii_text s \<longrightarrow>
        str_lower e s = ascii_lower s \<and> str_upper e s = ascii_upper s \<and>
        str_strip e s = ascii_strip s)"

definition fingerprint :: "env \<Rightarrow> string \<Rightarrow> string \<Rightarrow> string" where
  "fingerprint e title url =
     take 16 (sha256_hexdigest e
                (str_strip e (str_lower e title) @ str_strip e (str_lower e url)))"

section \<open>Feed store\<close>

definition get_feed :: "state \<Rightarrow> string \<Rightarrow> Feed option" where
  "get_feed s fid = find (\<lambda>f. feed_id f = fid) (feeds s)"

definition get_feed_by_url :: "state \<Rightarrow> string \<Rightarrow> Feed option" where
  "get_feed_by_url s url = find (\<lambda>f. feed_url f = url) (feeds s)"

text \<open>
  \<^verbatim>\<open>add_feed\<close>: the id is drawn and the record built (its \<^verbatim>\<open>created_at\<close> default
  reads the clock); the INSERT raises when the interval does not fit 64 bits, and
  otherwise \<^verbatim>\<open>INSERT OR IGNORE\<close> skips the row when the primary key or the UNIQUE url
  is taken; the row found by url is returned.
\<close>

definition add_feed ::
  "env \<Rightarrow> string \<Rightarrow> string \<Rightarrow> string \<Rightarrow> int \<Rightarrow> state \<Rightarrow> (error + Feed) \<times> state" where
  "add_feed e name url category interval s =
     (let fid = uuid4 e (entropy s);
          feed = \<lparr>feed_id = fid, feed_name = name, feed_url = url,
                  feed_category = category, feed_fetch_interval_min = interval,
                  feed_last_fetched = None, feed_status = ACTIVE,
                  feed_error_message = None, feed_item_count = 0,
                  feed_created_at = now e (clock s)\<rparr>;
          s1 = s\<lparr>clock := Suc (clock s), entropy := Suc (entropy s)\<rparr>
      in if \<not> sqlite_int interval then (Inl too_large, s1)
         else (let s2 = (if list_ex (\<lambda>f. feed_id f = fid \<or> feed_url f = url) (feeds s1)
                         then s1
                         else s1\<lparr>feeds := feeds s1 @ [feed]\<rparr>)
               in (Inr (case get_feed_by_url s2 url of Some f \<Rightarrow> f | None \<Rightarrow> feed), s2)))"

definition fts_of :: "nat \<times> FeedItem \<Rightarrow> fts_row" where
  "fts_of r = (fst r, item_title (snd r), item_summary (snd r), item_author (snd r))"

text \<open>SQLite gives a new row the largest rowid in the table plus one.\<close>

definition next_rowid :: "(nat \<times> FeedItem) list \<Rightarrow> nat" where
  "next_rowid rows = Suc (fold max (map fst rows) 0)"

text \<open>
  \<^verbatim>\<open>INSERT INTO feed_items\<close> with the trigger \<^verbatim>\<open>feed_items_ai\<close>, which adds the row
  to the full-text table in the same statement. The primary key rejects a taken id.
\<close>

definition insert_feed_item :: "FeedItem \<Rightarrow> state \<Rightarrow> error + state" where
  "insert_feed_item it s =
     (if list_ex (\<lambda>r. item_id (snd r) = item_id it) (feed_items s)
      then Inl (IntegrityError ''UNIQUE constraint failed: feed_items.id'')
      else (let r = (next_rowid (feed_items s), it)
            in Inr (s\<lparr>feed_items := feed_items s @ [r],
                       feed_items_fts := feed_items_fts s @ [fts_of r]\<rparr>)))"

text \<open>
  \<^verbatim>\<open>DELETE FROM feed_items WHERE fingerprint=? AND id != ?\<close> with the trigger
  \<^verbatim>\<open>feed_items_ad\<close>, which issues the \<^verbatim>\<open>'delete'\<close> command of the full-text table for
  each row removed. \<open>is_loser\<close> is the WHERE clause; the first component of the result
  is the statement's \<^verbatim>\<open>rowcount\<close>.
\<close>

definition is_loser :: "string \<Rightarrow> string \<Rightarrow> nat \<times> FeedItem \<Rightarrow> bool" where
  "is_loser fp keep_id r = (item_fingerprint (snd r) = fp \<and> item_id (snd r) \<noteq> keep_id)"

definition delete_duplicates :: "string \<Rightarrow> string \<Rightarrow> state \<Rightarrow> nat \<times> state" where
  "delete_duplicates fp keep_id s =
     (let gone = filter (is_loser fp keep_id) (feed_items s)
      in (length gone,
          s\<lparr>feed_items := filter (\<lambda>r. \<not> is_loser fp keep_id r) (feed_items s),
            feed_items_fts := fold (\<lambda>r fts. removeAll (fts_of r) fts) gone (feed_items_fts s)\<rparr>))"

section \<open>The simulated fetcher\<close>

text \<open>Python's \<^verbatim>\<open>xs[:n]\<close>: a negative bound counts from the end.\<close>

definition py_slice_to :: "int \<Rightarrow> 'a list \<Rightarrow> 'a list" where
  "py_slice_to n xs =
     (if 0 \<le> n then take (nat n) xs else take (nat (int (length xs) + n)) xs)"

text \<open>An entry of \<^verbatim>\<open>SAMPLE_FEEDS\<close>: title, author, url, summary.\<close>

type_synonym sample = "string \<times> string \<times> string \<times> string"

definition SAMPLE_FEEDS :: "(string \<times> sample list) list" where
  "SAMPLE_FEEDS =
    [(''tech-news'',
       [(''AI Breakthrough in 2025'', ''Jane Smith'', ''https://example.com/ai-2025'',
         ''New AI models achieve human parity on reasoning benchmarks.''),
        (''Open Source Wins Big'', ''John Doe'', ''https://example.com/oss'',
         ''Open source projects dominate enterprise adoption.''),
        (''Cloud Costs Spiral'', ''Alice Brown'', ''https://example.com/cloud'',
         ''Enterprise cloud costs up 40% year over year.'')]),
     (''science'',
       [(''Mars Mission Update'', ''NASA Team'', ''https://example.com/mars'',
         ''Perseverance rover discovers ancient lake bed.''),
        (''Quantum Computing Milestone'', ''MIT Lab'', ''https://example.com/quantum'',
         ''100-qubit processor achieves new error correction record.'')]),
     (''default'',
       [(''Sample Article 1'', ''Author A'', ''https://example.com/1'',
         ''Content for article one.''),
        (''Sample Article 2'', ''Author B'', ''https://example.com/2'',
         ''Content for article two.'')])]"

definition default_config :: AggregatorConfig where
  "default_config = \<lparr>max_items_per_feed = 100, dedupe_window_days = 30,
                      fetch_timeout = 10, max_summary_length = 500\<rparr>"

text \<open>
  \<^verbatim>\<open>_simulate_fetch\<close>. \<open>hours_ago h\<close> stands for
  \<^verbatim>\<open>(now - timedelta(hours=h)).isoformat()\<close> of the one \<^verbatim>\<open>datetime.now\<close> the call reads.
\<close>

definition simulate_fetch :: "AggregatorConfig \<Rightarrow> (nat \<Rightarrow> string) \<Rightarrow> Feed \<Rightarrow> raw list" where
  "simulate_fetch cfg hours_ago feed =
     (let items = (case map_of SAMPLE_FEEDS (feed_category feed) of
                     Some xs \<Rightarrow> xs
                   | None \<Rightarrow> (case map_of SAMPLE_FEEDS ''default'' of
                                Some xs \<Rightarrow> xs | None \<Rightarrow> []));
          capped = py_slice_to (max_items_per_feed cfg) items
      in map (\<lambda>(i, (title, author, url, summary)).
                [''title'' \<mapsto> title,
                 ''url'' \<mapsto> url,
                 ''summary'' \<mapsto> py_slice_to (max_summary_length cfg) summary,
                 ''author'' \<mapsto> author,
                 ''published_at'' \<mapsto> hours_ago (i * 6)])
             (zip [0..<length capped] capped))"

section \<open>Refresh engine\<close>

text \<open>
  What \<^verbatim>\<open>refresh\<close> and \<^verbatim>\<open>refresh_all\<close> return: the skip dictionary, the summary
  (feed id, new items, duplicates, total items) and the error entry of the batch.
\<close>

datatype result =
    Skipped string string
  | Refreshed string nat nat nat
  | Failed string string

definition py_get :: "raw \<Rightarrow> string \<Rightarrow> string \<Rightarrow> string" where
  "py_get d k dflt = (case d k of Some v \<Rightarrow> v | None \<Rightarrow> dflt)"

text \<open>
  The row that \<^verbatim>\<open>refresh\<close> inserts for a raw item with the given title, url and
  fingerprint. It draws one uuid and reads the clock twice: for the default of
  \<^verbatim>\<open>published_at\<close>, which Python evaluates whether or not the key is there, and for
  \<^verbatim>\<open>created_at\<close>. \<open>drawn\<close> is the state after these three calls.
\<close>

definition new_item :: "env \<Rightarrow> string \<Rightarrow> raw \<Rightarrow> string \<Rightarrow> string \<Rightarrow> string \<Rightarrow> state \<Rightarrow> FeedItem" where
  "new_item e fid raw title url fp s =
     \<lparr>item_id = uuid4 e (entropy s), item_feed_id = fid,
      item_title = title, item_url = url,
      item_summary = py_get raw ''summary'' [],
      item_author = py_get raw ''author'' [],
      item_published_at = py_get raw ''published_at'' (now e (clock s)),
      item_fingerprint = fp, item_is_read = False, item_is_bookmarked = False,
      item_created_at = now e (Suc (clock s))\<rparr>"

definition drawn :: "state \<Rightarrow> state" where
  "drawn s = s\<lparr>clock := Suc (Suc (clock s)), entropy := Suc (entropy s)\<rparr>"

text \<open>
  The loop over the raw items, with its two counters. Each item is handled in its own
  transaction, so the rows inserted before a failure stay.
\<close>

fun ingest ::
  "env \<Rightarrow> string \<Rightarrow> raw list \<Rightarrow> nat \<Rightarrow> nat \<Rightarrow> state \<Rightarrow> (error + nat \<times> nat) \<times> state" where
  "ingest e fid [] new_count dup_count s = (Inr (new_count, dup_count), s)"
| "ingest e fid (raw # raws) new_count dup_count s =
     (case raw ''title'' of
        None \<Rightarrow> (Inl (KeyError ''title''), s)
      | Some title \<Rightarrow>
     (case raw ''url'' of
        None \<Rightarrow> (Inl (KeyError ''url''), s)
      | Some url \<Rightarrow>
     (let fp = fingerprint e title url
      in (case find (\<lambda>r. item_fingerprint (snd r) = fp) (feed_items s) of
            Some existing \<Rightarrow> ingest e fid raws new_count (Suc dup_count) s
          | None \<Rightarrow>
             (case insert_feed_item (new_item e fid raw title url fp s) (drawn s) of
                Inl err \<Rightarrow> (Inl err, drawn s)
              | Inr s2 \<Rightarrow> ingest e fid raws (Suc new_count) dup_count s2)))))"

text \<open>The handler of \<^verbatim>\<open>refresh\<close>: \<^verbatim>\<open>UPDATE feeds SET status='error', error_message=?\<close>.\<close>

definition mark_error :: "string \<Rightarrow> error \<Rightarrow> state \<Rightarrow> state" where
  "mark_error fid err s =
     s\<lparr>feeds := map (\<lambda>f. if feed_id f = fid
                          then f\<lparr>feed_status := ERROR, feed_error_message := Some (py_str err)\<rparr>
                          else f) (feeds s)\<rparr>"

text \<open>
  The closing \<^verbatim>\<open>UPDATE feeds SET last_fetched=?, status='active', item_count=?\<close>, after
  the count of the feed's rows.
\<close>

definition count_items :: "string \<Rightarrow> state \<Rightarrow> nat" where
  "count_items fid s = length (filter (\<lambda>r. item_feed_id (snd r) = fid) (feed_items s))"

definition mark_fetched :: "string \<Rightarrow> string \<Rightarrow> nat \<Rightarrow> state \<Rightarrow> state" where
  "mark_fetched fid t item_total s =
     s\<lparr>feeds := map (\<lambda>f. if feed_id f = fid
                          then f\<lparr>feed_last_fetched := Some t, feed_status := ACTIVE,
                                 feed_item_count := item_total\<rparr>
                          else f) (feeds s)\<rparr>"

text \<open>
  \<^verbatim>\<open>refresh\<close>. \<open>Inl\<close> is the exception that leaves the call; the state comes back in
  both cases, since the handler writes before it re-raises.
\<close>

definition refresh :: "env \<Rightarrow> string \<Rightarrow> state \<Rightarrow> (error + result) \<times> state" where
  "refresh e fid s =
     (case get_feed s fid of
        None \<Rightarrow> (Inl (ValueError (''Feed '' @ fid @ '' not found'')), s)
      | Some feed \<Rightarrow>
          if feed_status feed = PAUSED then (Inr (Skipped fid ''paused''), s)
          else (case fetcher e feed of
                  Inl err \<Rightarrow> (Inl err, mark_error fid err s)
                | Inr raw_items \<Rightarrow>
                    (case ingest e fid raw_items 0 0 s of
                       (Inl err, s1) \<Rightarrow> (Inl err, mark_error fid err s1)
                     | (Inr (new_count, dup_count), s1) \<Rightarrow>
                         (let item_total = count_items fid s1;
                              s2 = mark_fetched fid (now e (clock s1)) item_total
                                     (s1\<lparr>clock := Suc (clock s1)\<rparr>)
                          in (Inr (Refreshed fid new_count dup_count item_total), s2)))))"

text \<open>\<^verbatim>\<open>refresh_all\<close>: the ids are selected first, then refreshed one by one.\<close>

fun refresh_each :: "env \<Rightarrow> string list \<Rightarrow> result list \<Rightarrow> state \<Rightarrow> result list \<times> state" where
  "refresh_each e [] results s = (results, s)"
| "refresh_each e (fid # fids) results s =
     (case refresh e fid s of
        (Inr r, s1) \<Rightarrow> refresh_each e fids (results @ [r]) s1
      | (Inl err, s1) \<Rightarrow> refresh_each e fids (results @ [Failed fid (py_str err)]) s1)"

text \<open>
  The entry that one round of the loop of \<^verbatim>\<open>refresh_all\<close> appends: the result of
  \<^verbatim>\<open>refresh\<close>, or the feed id with the text of the exception caught.
\<close>

definition batch_entry :: "env \<Rightarrow> string \<Rightarrow> state \<Rightarrow> result" where
  "batch_entry e fid s =
     (case fst (refresh e fid s) of Inr r \<Rightarrow> r | Inl err \<Rightarrow> Failed fid (py_str err))"

definition active_ids :: "state \<Rightarrow> string list" where
  "active_ids s = map feed_id (filter (\<lambda>f. feed_status f = ACTIVE) (feeds s))"

definition refresh_all :: "env \<Rightarrow> state \<Rightarrow> result list \<times> state" where
  "refresh_all e s = refresh_each e (active_ids s) [] s"

definition pause_feed :: "string \<Rightarrow> state \<Rightarrow> bool \<times> state" where
  "pause_feed fid s =
     (list_ex (\<lambda>f. feed_id f = fid) (feeds s),
      s\<lparr>feeds := map (\<lambda>f. if feed_id f = fid then f\<lparr>feed_status := PAUSED\<rparr> else f)
                     (feeds s)\<rparr>)"

definition resume_feed :: "string \<Rightarrow> state \<Rightarrow> bool \<times> state" where
  "resume_feed fid s =
     (list_ex (\<lambda>f. feed_id f = fid) (feeds s),
      s\<lparr>feeds := map (\<lambda>f. if feed_id f = fid then f\<lparr>feed_status := ACTIVE\<rparr> else f)
                     (feeds s)\<rparr>)"

section \<open>Item operations\<close>

definition mark_read :: "string \<Rightarrow> state \<Rightarrow> bool \<times> state" where
  "mark_read iid s =
     (list_ex (\<lambda>r. item_id (snd r) = iid) (feed_items s),
      s\<lparr>feed_items := map (\<lambda>r. if item_id (snd r) = iid
                                then (fst r, (snd r)\<lparr>item_is_read := True\<rparr>) else r)
                          (feed_items s)\<rparr>)"

definition mark_unread :: "string \<Rightarrow> state \<Rightarrow> bool \<times> state" where
  "mark_unread iid s =
     (list_ex (\<lambda>r. item_id (snd r) = iid) (feed_items s),
      s\<lparr>feed_items := map (\<lambda>r. if item_id (snd r) = iid
                                then (fst r, (snd r)\<lparr>item_is_read := False\<rparr>) else r)
                          (feed_items s)\<rparr>)"

definition bookmark :: "string \<Rightarrow> state \<Rightarrow> bool \<times> state" where
  "bookmark iid s =
     (list_ex (\<lambda>r. item_id (snd r) = iid) (feed_items s),
      s\<lparr>feed_items := map (\<lambda>r. if item_id (snd r) = iid
                                then (fst r, (snd r)\<lparr>item_is_bookmarked := True\<rparr>) else r)
                          (feed_items s)\<rparr>)"

definition unbookmark :: "string \<Rightarrow> state \<Rightarrow> bool \<times> state" where
  "unbookmark iid s =
     (list_ex (\<lambda>r. item_id (snd r) = iid) (feed_items s),
      s\<lparr>feed_items := map (\<lambda>r. if item_id (snd r) = iid
                                then (fst r, (snd r)\<lparr>item_is_bookmarked := False\<rparr>) else r)
                          (feed_items s)\<rparr>)"

section \<open>Full-text search\<close>






section \<open>Deduplication sweeper\<close>

text \<open>
  \<^verbatim>\<open>SELECT fingerprint, COUNT(*) as cnt, MIN(id) as keep_id ... GROUP BY fingerprint
  HAVING cnt > 1\<close>, read in full before the first delete.
\<close>

definition fingerprint_group :: "(nat \<times> FeedItem) list \<Rightarrow> string \<Rightarrow> (nat \<times> FeedItem) list" where
  "fingerprint_group rows fp = filter (\<lambda>r. item_fingerprint (snd r) = fp) rows"

definition min_id :: "(nat \<times> FeedItem) list \<Rightarrow> string" where
  "min_id rows = min_list (map (\<lambda>r. item_id (snd r)) rows)"

definition duplicate_groups :: "(nat \<times> FeedItem) list \<Rightarrow> (string \<times> nat \<times> string) list" where
  "duplicate_groups rows =
     filter (\<lambda>(fp, cnt, keep_id). 1 < cnt)
       (map (\<lambda>fp. (fp, length (fingerprint_group rows fp), min_id (fingerprint_group rows fp)))
            (sort (remdups (map (\<lambda>r. item_fingerprint (snd r)) rows))))"

fun sweep :: "(string \<times> nat \<times> string) list \<Rightarrow> nat \<Rightarrow> state \<Rightarrow> nat \<times> state" where
  "sweep [] removed s = (removed, s)"
| "sweep ((fp, cnt, keep_id) # dups) removed s =
     (case delete_duplicates fp keep_id s of
        (rowcount, s1) \<Rightarrow> sweep dups (removed + rowcount) s1)"

definition deduplicate :: "state \<Rightarrow> nat \<times> state" where
  "deduplicate s = sweep (duplicate_groups (feed_items s)) 0 s"

section \<open>Well-formed databases and an example environment\<close>

text \<open>
  The constraints of the schema (primary keys, the UNIQUE url, distinct rowids) and the
  agreement of the full-text table with \<^verbatim>\<open>feed_items\<close> that the two triggers maintain.
\<close>

definition wf_state :: "state \<Rightarrow> bool" where
  "wf_state s =
     (distinct (map feed_id (feeds s)) \<and>
      distinct (map feed_url (feeds s)) \<and>
      distinct (map (\<lambda>r. item_id (snd r)) (feed_items s)) \<and>
      distinct (map fst (feed_items s)) \<and>
      feed_items_fts s = map fts_of (feed_items s))"

definition empty_state :: state where
  "empty_state = \<lparr>feeds = [], feed_items = [], feed_items_fts = [], clock = 0, entropy = 0\<rparr>"

text \<open>
  A stand-in for FTS5 with its default tokenizer, for the examples only. It knows one
  kind of query that FTS5 accepts, a single bare term of ASCII letters and digits other
  than the operators AND, OR and NOT, which matches a row when it is one of the tokens
  of a column: the tokens are the maximal runs of letters and digits, compared without
  regard to case. It knows three kinds that FTS5 refuses, with the message of each: the
  empty query, an operator alone, and two bare terms joined by a hyphen, where FTS5
  reads the second as the name of a column and finds none of that name. Every other
  query is outside the stand-in, which refuses it; the phrases, operators, prefixes and
  column filters of FTS5 are not modelled, and no example uses them.
\<close>

definition is_token_char :: "char \<Rightarrow> bool" where
  "is_token_char c =
     (c \<in> set ascii_uppercase \<or> c \<in> set ascii_lowercase \<or> c \<in> set ''0123456789'' \<or>
      128 \<le> (of_char c :: nat))"

fun tokens :: "string \<Rightarrow> string \<Rightarrow> string list" where
  "tokens [] cur = (if cur = [] then [] else [cur])"
| "tokens (c # cs) cur =
     (if is_token_char c then tokens cs (cur @ [c])
      else (if cur = [] then [] else [cur]) @ tokens cs [])"

definition term_match :: "string \<Rightarrow> string \<times> string \<times> string \<Rightarrow> bool" where
  "term_match q row =
     (case row of (title, summary, author) \<Rightarrow>
        ascii_lower q \<in> set (tokens (ascii_lower title) [] @ tokens (ascii_lower summary) [] @
                           tokens (ascii_lower author) []))"

definition bare_word :: "string \<Rightarrow> bool" where
  "bare_word w =
     (w \<noteq> [] \<and> ascii_text w \<and> list_all is_token_char w \<and>
      w \<notin> set [''AND'', ''OR'', ''NOT''])"

definition bare_term_query :: "string \<Rightarrow> error + (string \<times> string \<times> string \<Rightarrow> bool)" where
  "bare_term_query q =
     (let a = takeWhile (\<lambda>c. c \<noteq> CHR ''-'') q;
          b = drop (Suc (length a)) q
      in if q = [] then Inl (OperationalError (''fts5: syntax error near '' @ [CHR 0x22, CHR 0x22]))
         else if q \<in> set [''AND'', ''OR'', ''NOT'']
           then Inl (OperationalError (''fts5: syntax error near '' @ [CHR 0x22] @ q @ [CHR 0x22]))
         else if bare_word q then Inr (term_match q)
         else if bare_word a \<and> bare_word b \<and> q = a @ ''-'' @ b \<and>
                 ascii_lower b \<notin> set [''title'', ''summary'', ''author'']
           then Inl (OperationalError (''no such column: '' @ b))
         else Inl (OperationalError ''fts5: syntax error''))"

text \<open>The letter sharp s, whose upper case in Python is two letters.\<close>

definition sharp_s :: string where
  "sharp_s = [CHR 0xC3, CHR 0x9F]"

text \<open>
  An environment to run the model on: the string built-ins are Python's on ASCII text
  and on the letter sharp s, the digest is the identity (the examples below come out the
  same under every digest that tells their texts apart), the n-th uuid is n+1 letters u,
  the n-th timestamp n+1 letters t, and the fetcher is the simulated one, whose item
  published h hours ago carries 20-h letters p, so that a later time is a greater string.
\<close>

definition example_env :: env where
  "example_env =
     \<lparr>str_lower = ascii_lower,
      str_upper = (\<lambda>s. if s = sharp_s then ''SS'' else ascii_upper s),
      str_strip = ascii_strip,
      sha256_hexdigest = (\<lambda>text. text),
      uuid4 = (\<lambda>n. replicate (Suc n) CHR ''u''),
      now = (\<lambda>n. replicate (Suc n) CHR ''t''),
      fetcher = (\<lambda>feed. Inr (simulate_fetch default_config
                                (\<lambda>h. drop h ''pppppppppppppppppppp'') feed)),
      fts5_query = bare_term_query\<rparr>"

definition failing_env :: env where
  "failing_env = example_env\<lparr>fetcher := (\<lambda>feed. Inl (FetchError ''timed out''))\<rparr>"

text \<open>The database after the first call of the demo driver, on an empty database.\<close>

definition tech_state :: state where
  "tech_state =
     snd (add_feed example_env ''TechCrunch'' ''https://techcrunch.com/feed/''
            ''tech-news'' 60 empty_state)"

section \<open>Runs of operations\<close>

fun result_feed_id :: "result \<Rightarrow> string" where
  "result_feed_id (Skipped fid reason) = fid"
| "result_feed_id (Refreshed fid n d t) = fid"
| "result_feed_id (Failed fid msg) = fid"

datatype operation =
    AddFeed string string string int
  | Refresh string
  | RefreshAll
  | PauseFeed string
  | ResumeFeed string
  | MarkRead string
  | MarkUnread string
  | Bookmark string
  | Unbookmark string
  | Deduplicate

text \<open>One call of the public interface, in the environment it meets; the value returned is dropped.\<close>

fun step :: "env \<Rightarrow> operation \<Rightarrow> state \<Rightarrow> state" where
  "step e (AddFeed name url category interval) s = snd (add_feed e name url category interval s)"
| "step e (Refresh fid) s = snd (refresh e fid s)"
| "step e RefreshAll s = snd (refresh_all e s)"
| "step e (PauseFeed fid) s = snd (pause_feed fid s)"
| "step e (ResumeFeed fid) s = snd (resume_feed fid s)"
| "step e (MarkRead iid) s = snd (mark_read iid s)"
| "step e (MarkUnread iid) s = snd (mark_unread iid s)"
| "step e (Bookmark iid) s = snd (bookmark iid s)"
| "step e (Unbookmark iid) s = snd (unbookmark iid s)"
| "step e Deduplicate s = snd (deduplicate s)"

fun run :: "(env \<times> operation) list \<Rightarrow> state \<Rightarrow> state" where
  "run [] s = s"
| "run ((e, op) # ops) s = run ops (step e op s)"

text \<open>The database after the demo's feed has been refreshed once.\<close>

definition fetched_state :: state where
  "fetched_state = snd (refresh example_env ''u'' tech_state)"

text \<open>The database after the demo's feed has met a fetcher that raises.\<close>

definition failed_state :: state where
  "failed_state = snd (refresh failing_env ''u'' tech_state)"

text \<open>The refreshed database with a second feed of the same category added.\<close>

definition mirror_state :: state where
  "mirror_state =
     snd (add_feed example_env ''Mirror'' ''https://mirror.example/feed''
            ''tech-news'' 60 fetched_state)"

text \<open>An environment whose uuid generator repeats itself, so that a second insert fails.\<close>

definition clashing_env :: env where
  "clashing_env = example_env\<lparr>uuid4 := (\<lambda>n. ''same'')\<rparr>"

section \<open>Specification predicates and further example databases\<close>

text \<open>
  \<open>flag_frame iid upd s s'\<close>: from \<open>s\<close> to \<open>s'\<close> nothing changed but the rows of
  \<^verbatim>\<open>feed_items\<close> with id \<open>iid\<close>, whose item became \<open>upd\<close> of what it was.
\<close>

definition flag_frame :: "string \<Rightarrow> (FeedItem \<Rightarrow> FeedItem) \<Rightarrow> state \<Rightarrow> state \<Rightarrow> bool" where
  "flag_frame iid upd s s' =
     (feeds s' = feeds s \<and> feed_items_fts s' = feed_items_fts s \<and>
      clock s' = clock s \<and> entropy s' = entropy s \<and>
      length (feed_items s') = length (feed_items s) \<and>
      (\<forall>k<length (feed_items s).
         fst (feed_items s' ! k) = fst (feed_items s ! k) \<and>
         snd (feed_items s' ! k) =
           (if item_id (snd (feed_items s ! k)) = iid then upd (snd (feed_items s ! k))
            else snd (feed_items s ! k))))"

text \<open>
  A database with rows brought in from outside: two of the three share a fingerprint.
\<close>

definition imported_state :: state where
  "imported_state =
     \<lparr>feeds = [],
      feed_items =
        [(1, \<lparr>item_id = ''b'', item_feed_id = ''f'', item_title = ''News'',
               item_url = ''http://x/1'', item_summary = ''first copy'', item_author = ''ann'',
               item_published_at = ''2'', item_fingerprint = ''fp-news'', item_is_read = False,
               item_is_bookmarked = False, item_created_at = ''2''\<rparr>),
         (2, \<lparr>item_id = ''a'', item_feed_id = ''g'', item_title = ''News'',
               item_url = ''http://x/1'', item_summary = ''second copy'', item_author = ''bob'',
               item_published_at = ''3'', item_fingerprint = ''fp-news'', item_is_read = False,
               item_is_bookmarked = False, item_created_at = ''3''\<rparr>),
         (3, \<lparr>item_id = ''c'', item_feed_id = ''f'', item_title = ''Sport'',
               item_url = ''http://x/2'', item_summary = ''only copy'', item_author = ''cy'',
               item_published_at = ''1'', item_fingerprint = ''fp-sport'', item_is_read = False,
               item_is_bookmarked = False, item_created_at = ''1''\<rparr>)],
      feed_items_fts =
        [(1, ''News'', ''first copy'', ''ann''), (2, ''News'', ''second copy'', ''bob''),
         (3, ''Sport'', ''only copy'', ''cy'')],
      clock = 0, entropy = 0\<rparr>"





text \<open>
  The changes of status that the program makes: \<open>permitted e op s fid old new\<close> holds
  when the operation \<open>op\<close>, run in state \<open>s\<close>, is one that takes the feed \<open>fid\<close> from
  the status \<open>old\<close> to the different status \<open>new\<close>. Pausing leads to paused and resuming
  to active from any status; a refresh of the feed that returns leads from error to
  active; a refresh of the feed that raises, alone or in the batch, leads from active to
  error.
\<close>

definition permitted ::
  "env \<Rightarrow> operation \<Rightarrow> state \<Rightarrow> string \<Rightarrow> FeedStatus \<Rightarrow> FeedStatus \<Rightarrow> bool" where
  "permitted e op s fid old new =
     ((new = PAUSED \<and> op = PauseFeed fid) \<or>
      (new = ACTIVE \<and> op = ResumeFeed fid) \<or>
      (new = ACTIVE \<and> old = ERROR \<and> op = Refresh fid \<and>
         (\<exists>r. fst (refresh e fid s) = Inr r)) \<or>
      (new = ERROR \<and> old = ACTIVE \<and> op = Refresh fid \<and>
         (\<exists>err. fst (refresh e fid s) = Inl err)) \<or>
      (new = ERROR \<and> old = ACTIVE \<and> op = RefreshAll \<and>
         (\<exists>msg. Failed fid msg \<in> set (fst (refresh_all e s)))))"

text \<open>
  A fleet of three feeds, the third paused, and an environment whose fetcher raises for
  the second.
\<close>

definition flaky_env :: env where
  "flaky_env =
     example_env\<lparr>fetcher := (\<lambda>feed. if feed_name feed = ''Broken''
                                      then Inl (FetchError ''timed out'')
                                      else fetcher example_env feed)\<rparr>"

definition fleet_state :: state where
  "fleet_state =
     run [(example_env, AddFeed ''NASA News''
             ''https://www.nasa.gov/rss/dyn/breaking_news.rss'' ''science'' 60),
          (example_env, AddFeed ''Broken'' ''https://broken.example/feed'' ''general'' 60),
          (example_env, AddFeed ''Paused'' ''https://paused.example/feed'' ''general'' 60),
          (example_env, PauseFeed ''uuu'')]
       empty_state"

section \<open>Properties of the fingerprint\<close>

lemma isspace_lower_char: "ascii_isspace (lower_char c) = ascii_isspace c"
proof (cases "map_of (zip ascii_uppercase ascii_lowercase) c")
  case None
  then show ?thesis by (simp add: lower_char_def)
next
  case (Some d)
  then have "(c, d) \<in> set (zip ascii_uppercase ascii_lowercase)"
    by (rule map_of_SomeD)
  then have "\<not> ascii_isspace c \<and> \<not> ascii_isspace d"
    unfolding ascii_uppercase_def ascii_lowercase_def ascii_isspace_def
    by (elim disjE conjE | simp)+
  with Some show ?thesis by (simp add: lower_char_def)
qed

lemma lower_upper_char: "lower_char (upper_char c) = lower_char c"
proof (cases "map_of (zip ascii_lowercase ascii_uppercase) c")
  case None
  then show ?thesis by (simp add: upper_char_def)
next
  case (Some d)
  then have "(c, d) \<in> set (zip ascii_lowercase ascii_uppercase)"
    by (rule map_of_SomeD)
  then have "lower_char d = c \<and> lower_char c = c"
    unfolding ascii_uppercase_def ascii_lowercase_def lower_char_def
    by (elim disjE conjE | simp)+
  with Some show ?thesis by (simp add: upper_char_def)
qed

lemma ascii_lower_upper: "ascii_lower (ascii_upper s) = ascii_lower s"
  by (simp add: ascii_lower_def ascii_upper_def lower_upper_char)

lemma ascii_lower_append: "ascii_lower (a @ b) = ascii_lower a @ ascii_lower b"
  by (simp add: ascii_lower_def)

lemma ascii_lower_space: "list_all ascii_isspace (ascii_lower a) = list_all ascii_isspace a"
  by (induction a) (simp_all add: ascii_lower_def isspace_lower_char)

lemma ascii_strip_surround:
  assumes "list_all ascii_isspace pre" and "list_all ascii_isspace post"
  shows "ascii_strip (pre @ s @ post) = ascii_strip s"
proof -
  have drop_pre: "dropWhile ascii_isspace (p @ t) = dropWhile ascii_isspace t"
    if "list_all ascii_isspace p" for p t
    using that by (induction p) simp_all
  have a: "dropWhile ascii_isspace (pre @ s @ post) = dropWhile ascii_isspace (s @ post)"
    using assms(1) by (rule drop_pre)
  have rp: "list_all ascii_isspace (rev post)"
    using assms(2) by (simp add: list_all_iff)
  show ?thesis
  proof (cases "list_all ascii_isspace s")
    case True
    then have "list_all ascii_isspace (s @ post)" using assms(2) by simp
    then have "dropWhile ascii_isspace (s @ post) = []"
      by (simp add: list_all_iff)
    moreover from True have "dropWhile ascii_isspace s = []"
      by (simp add: list_all_iff)
    ultimately show ?thesis by (simp only: ascii_strip_def a)
  next
    case False
    then have ex: "\<exists>x\<in>set s. \<not> ascii_isspace x" by (simp add: list_all_iff)
    then have "dropWhile ascii_isspace (s @ post) = dropWhile ascii_isspace s @ post"
      by (auto simp: dropWhile_append1)
    moreover have "dropWhile ascii_isspace (rev post @ r) = dropWhile ascii_isspace r" for r
      using rp by (rule drop_pre)
    ultimately show ?thesis by (simp add: ascii_strip_def a)
  qed
qed

lemma normalise_surround:
  assumes "list_all ascii_isspace pre" and "list_all ascii_isspace post"
  shows "ascii_strip (ascii_lower (pre @ s @ post)) = ascii_strip (ascii_lower s)"
  using assms by (simp add: ascii_lower_append ascii_strip_surround ascii_lower_space)

lemma ascii_text_append: "ascii_text (a @ b) = (ascii_text a \<and> ascii_text b)"
  by (simp add: ascii_text_def)

lemma ascii_isspace_text: "list_all ascii_isspace p \<Longrightarrow> ascii_text p"
proof (induction p)
  case Nil
  show ?case by (simp add: ascii_text_def)
next
  case (Cons c p)
  then have "ascii_isspace c" and "ascii_text p" by simp_all
  then have "(of_char c :: nat) < 128"
    unfolding ascii_isspace_def by (elim disjE | simp)+
  with \<open>ascii_text p\<close> show ?case by (simp add: ascii_text_def)
qed

lemma lower_char_ascii: "(of_char c :: nat) < 128 \<Longrightarrow> (of_char (lower_char c) :: nat) < 128"
proof (cases "map_of (zip ascii_uppercase ascii_lowercase) c")
  case None
  assume "(of_char c :: nat) < 128"
  with None show ?thesis by (simp add: lower_char_def)
next
  case (Some d)
  then have "(c, d) \<in> set (zip ascii_uppercase ascii_lowercase)"
    by (rule map_of_SomeD)
  then have "(of_char d :: nat) < 128"
    unfolding ascii_uppercase_def ascii_lowercase_def
    by (elim disjE conjE | simp)+
  with Some show ?thesis by (simp add: lower_char_def)
qed

lemma upper_char_ascii: "(of_char c :: nat) < 128 \<Longrightarrow> (of_char (upper_char c) :: nat) < 128"
proof (cases "map_of (zip ascii_lowercase ascii_uppercase) c")
  case None
  assume "(of_char c :: nat) < 128"
  with None show ?thesis by (simp add: upper_char_def)
next
  case (Some d)
  then have "(c, d) \<in> set (zip ascii_lowercase ascii_uppercase)"
    by (rule map_of_SomeD)
  then have "(of_char d :: nat) < 128"
    unfolding ascii_uppercase_def ascii_lowercase_def
    by (elim disjE conjE | simp)+
  with Some show ?thesis by (simp add: upper_char_def)
qed

lemma ascii_lower_text: "ascii_text s \<Longrightarrow> ascii_text (ascii_lower s)"
  by (induction s) (simp_all add: ascii_text_def ascii_lower_def lower_char_ascii)

lemma ascii_upper_text: "ascii_text s \<Longrightarrow> ascii_text (ascii_upper s)"
  by (induction s) (simp_all add: ascii_text_def ascii_upper_def upper_char_ascii)

text \<open>On ASCII text the normal form that is hashed is the ASCII one.\<close>

lemma normal_form_ascii:
  assumes "python_on_ascii e" and "ascii_text s"
  shows "str_strip e (str_lower e s) = ascii_strip (ascii_lower s)"
proof -
  from assms have "str_lower e s = ascii_lower s" by (simp add: python_on_ascii_def)
  moreover from assms(2) have "ascii_text (ascii_lower s)" by (rule ascii_lower_text)
  with assms(1) have "str_strip e (ascii_lower s) = ascii_strip (ascii_lower s)"
    by (simp add: python_on_ascii_def)
  ultimately show ?thesis by simp
qed

lemma sharp_s_not_ascii: "\<not> ascii_text sharp_s"
  by (simp add: sharp_s_def ascii_text_def)

lemma example_env_on_ascii: "python_on_ascii example_env"
  unfolding python_on_ascii_def
proof (intro allI impI)
  fix s assume "ascii_text s"
  with sharp_s_not_ascii have "s \<noteq> sharp_s" by auto
  then show "str_lower example_env s = ascii_lower s \<and>
      str_upper example_env s = ascii_upper s \<and> str_strip example_env s = ascii_strip s"
    by (simp add: example_env_def)
qed

lemmas norm_defs = fingerprint_def ascii_strip_def ascii_lower_def lower_char_def
  ascii_uppercase_def ascii_lowercase_def ascii_isspace_def

text \<open>
  C4 (as stated): fingerprints agree whenever titles and urls differ only in letter case
  or surrounding whitespace, and differ whenever the normalised title or the normalised
  url differ, up to a collision of the hash. Both fail. The two normalised strings are
  joined with no separator, so title ab with url c and title a with url bc give the hash
  the same text: the fingerprints agree under every hash. And \<^verbatim>\<open>str.upper\<close> turns the
  letter sharp s into SS, whose lower case is ss and not sharp s: a title and its upper
  case get different texts to hash, hence different fingerprints unless the hash
  collides.
\<close>

theorem fingerprint_no_separator_counterexample:
  "str_strip example_env (str_lower example_env ''ab'') \<noteq>
     str_strip example_env (str_lower example_env ''a'') \<and>
   str_strip example_env (str_lower example_env ''c'') \<noteq>
     str_strip example_env (str_lower example_env ''bc'') \<and>
   (\<forall>H. fingerprint (example_env\<lparr>sha256_hexdigest := H\<rparr>) ''ab'' ''c'' =
        fingerprint (example_env\<lparr>sha256_hexdigest := H\<rparr>) ''a'' ''bc'') \<and>
   str_upper example_env sharp_s = ''SS'' \<and>
   str_strip example_env (str_lower example_env (str_upper example_env sharp_s)) = ''ss'' \<and>
   str_strip example_env (str_lower example_env sharp_s) = sharp_s \<and>
   fingerprint example_env (str_upper example_env sharp_s) ''/'' \<noteq>
     fingerprint example_env sharp_s ''/''"
  by (simp add: norm_defs example_env_def sharp_s_def)

text \<open>
  C4 (amended): the fingerprint is the first 16 characters of the digest of the
  lower-cased, stripped title followed, with no separator, by the lower-cased, stripped
  url, where lower case and stripping are Python's. Two fingerprints agree whenever
  these normal forms of the titles agree and those of the urls agree; for ASCII titles
  and urls that is the case when they differ only in the case of letters or in
  surrounding whitespace, in particular for their upper-cased forms. Two fingerprints
  agree whenever the joined normal forms agree, and when the 16-character prefix of the
  digest does not collide on the two joined texts they agree only then.
\<close>

theorem fingerprint_normalised:
  "fingerprint e t u =
     take 16 (sha256_hexdigest e
                (str_strip e (str_lower e t) @ str_strip e (str_lower e u))) \<and>
   (str_strip e (str_lower e t') = str_strip e (str_lower e t) \<and>
    str_strip e (str_lower e u') = str_strip e (str_lower e u) \<longrightarrow>
      fingerprint e t' u' = fingerprint e t u) \<and>
   (python_on_ascii e \<and> ascii_text (t @ u @ t' @ u') \<and>
    list_all ascii_isspace (p1 @ q1 @ p2 @ q2) \<and>
    ascii_lower t' = ascii_lower t \<and> ascii_lower u' = ascii_lower u \<longrightarrow>
      fingerprint e (p1 @ t' @ q1) (p2 @ u' @ q2) = fingerprint e t u) \<and>
   (python_on_ascii e \<and> ascii_text (t @ u) \<longrightarrow>
      fingerprint e (str_upper e t) (str_upper e u) = fingerprint e t u) \<and>
   (str_strip e (str_lower e t) @ str_strip e (str_lower e u) =
      str_strip e (str_lower e v) @ str_strip e (str_lower e w) \<longrightarrow>
      fingerprint e t u = fingerprint e v w) \<and>
   (inj_on (\<lambda>x. take 16 (sha256_hexdigest e x))
      {str_strip e (str_lower e t) @ str_strip e (str_lower e u),
       str_strip e (str_lower e v) @ str_strip e (str_lower e w)} \<longrightarrow>
      (fingerprint e t u = fingerprint e v w) =
      (str_strip e (str_lower e t) @ str_strip e (str_lower e u) =
       str_strip e (str_lower e v) @ str_strip e (str_lower e w)))"
proof (intro conjI impI)
  show "fingerprint e t u =
     take 16 (sha256_hexdigest e
                (str_strip e (str_lower e t) @ str_strip e (str_lower e u)))"
    by (simp add: fingerprint_def)
next
  assume "str_strip e (str_lower e t') = str_strip e (str_lower e t) \<and>
    str_strip e (str_lower e u') = str_strip e (str_lower e u)"
  then show "fingerprint e t' u' = fingerprint e t u"
    by (simp add: fingerprint_def)
next
  assume a: "python_on_ascii e \<and> ascii_text (t @ u @ t' @ u') \<and>
    list_all ascii_isspace (p1 @ q1 @ p2 @ q2) \<and>
    ascii_lower t' = ascii_lower t \<and> ascii_lower u' = ascii_lower u"
  then have e: "python_on_ascii e"
    and at: "ascii_text t" "ascii_text u" "ascii_text t'" "ascii_text u'"
    and ws: "list_all ascii_isspace p1" "list_all ascii_isspace q1"
      "list_all ascii_isspace p2" "list_all ascii_isspace q2"
    by (simp_all add: ascii_text_append)
  from at ws have pt: "ascii_text (p1 @ t' @ q1)" and pu: "ascii_text (p2 @ u' @ q2)"
    by (simp_all add: ascii_text_append ascii_isspace_text)
  have "str_strip e (str_lower e (p1 @ t' @ q1)) = ascii_strip (ascii_lower (p1 @ t' @ q1))"
    using e pt by (rule normal_form_ascii)
  also have "\<dots> = ascii_strip (ascii_lower t')"
    using ws(1,2) by (rule normalise_surround)
  also have "\<dots> = str_strip e (str_lower e t)"
    using a normal_form_ascii [OF e at(1)] by simp
  finally have 1: "str_strip e (str_lower e (p1 @ t' @ q1)) = str_strip e (str_lower e t)" .
  have "str_strip e (str_lower e (p2 @ u' @ q2)) = ascii_strip (ascii_lower (p2 @ u' @ q2))"
    using e pu by (rule normal_form_ascii)
  also have "\<dots> = ascii_strip (ascii_lower u')"
    using ws(3,4) by (rule normalise_surround)
  also have "\<dots> = str_strip e (str_lower e u)"
    using a normal_form_ascii [OF e at(2)] by simp
  finally have 2: "str_strip e (str_lower e (p2 @ u' @ q2)) = str_strip e (str_lower e u)" .
  from 1 2 show "fingerprint e (p1 @ t' @ q1) (p2 @ u' @ q2) = fingerprint e t u"
    by (simp add: fingerprint_def)
next
  assume a: "python_on_ascii e \<and> ascii_text (t @ u)"
  then have e: "python_on_ascii e" and at: "ascii_text t" "ascii_text u"
    by (simp_all add: ascii_text_append)
  have up: "str_strip e (str_lower e (str_upper e x)) = str_strip e (str_lower e x)"
    if x: "ascii_text x" for x
  proof -
    from e x have u: "str_upper e x = ascii_upper x" by (simp add: python_on_ascii_def)
    from x have "ascii_text (ascii_upper x)" by (rule ascii_upper_text)
    from normal_form_ascii [OF e this] normal_form_ascii [OF e x] u
    show ?thesis by (simp add: ascii_lower_upper)
  qed
  from up [OF at(1)] up [OF at(2)]
  show "fingerprint e (str_upper e t) (str_upper e u) = fingerprint e t u"
    by (simp add: fingerprint_def)
next
  assume "str_strip e (str_lower e t) @ str_strip e (str_lower e u) =
      str_strip e (str_lower e v) @ str_strip e (str_lower e w)"
  then show "fingerprint e t u = fingerprint e v w"
    by (simp add: fingerprint_def)
next
  assume "inj_on (\<lambda>x. take 16 (sha256_hexdigest e x))
      {str_strip e (str_lower e t) @ str_strip e (str_lower e u),
       str_strip e (str_lower e v) @ str_strip e (str_lower e w)}"
  then show "(fingerprint e t u = fingerprint e v w) =
      (str_strip e (str_lower e t) @ str_strip e (str_lower e u) =
       str_strip e (str_lower e v) @ str_strip e (str_lower e w))"
    unfolding fingerprint_def by (auto dest: inj_onD)
qed

theorem fingerprint_normalised_witness:
  "fingerprint example_env ''  Open Source '' (CHR 0x09 # ''HTTPS://Example.com/OSS'') =
     fingerprint example_env ''open source'' ''https://example.com/oss'' \<and>
   fingerprint example_env ''open source'' ''https://example.com/oss'' = ''open sourcehttps'' \<and>
   fingerprint example_env (str_upper example_env ''open source'')
     (str_upper example_env ''https://example.com/oss'') =
     fingerprint example_env ''open source'' ''https://example.com/oss'' \<and>
   fingerprint example_env ''ab'' ''c'' = fingerprint example_env ''a'' ''bc'' \<and>
   fingerprint example_env ''a'' ''b'' \<noteq> fingerprint example_env ''a'' ''c''"
proof -
  let ?e = example_env
  note on_ascii = example_env_on_ascii
  have at: "ascii_text (''open source'' @ ''https://example.com/oss'' @ ''Open Source'' @
      ''HTTPS://Example.com/OSS'')"
    by (simp add: ascii_text_def)
  have at2: "ascii_text (''open source'' @ ''https://example.com/oss'')"
    by (simp add: ascii_text_def)
  have ws: "list_all ascii_isspace (''  '' @ '' '' @ [CHR 0x09] @ [])"
    by (simp add: ascii_isspace_def)
  have lo: "ascii_lower ''Open Source'' = ascii_lower ''open source''"
    "ascii_lower ''HTTPS://Example.com/OSS'' = ascii_lower ''https://example.com/oss''"
    by (simp_all add: norm_defs)
  note inst = fingerprint_normalised [of ?e "''open source''" "''https://example.com/oss''"
      "''Open Source''" "''HTTPS://Example.com/OSS''" "''  ''" "'' ''" "[CHR 0x09]" "[]"
      "''ab''" "''c''"]
  from inst [THEN conjunct2, THEN conjunct2, THEN conjunct1, THEN mp,
      OF conjI [OF on_ascii conjI [OF at conjI [OF ws conjI [OF lo]]]]]
  have a: "fingerprint ?e (''  '' @ ''Open Source'' @ '' '')
             ([CHR 0x09] @ ''HTTPS://Example.com/OSS'' @ []) =
           fingerprint ?e ''open source'' ''https://example.com/oss''" .
  from inst [THEN conjunct1]
  have b: "fingerprint ?e ''open source'' ''https://example.com/oss'' =
           take 16 (sha256_hexdigest ?e
             (str_strip ?e (str_lower ?e ''open source'') @
              str_strip ?e (str_lower ?e ''https://example.com/oss'')))" .
  have b': "take 16 (sha256_hexdigest ?e
             (str_strip ?e (str_lower ?e ''open source'') @
              str_strip ?e (str_lower ?e ''https://example.com/oss''))) = ''open sourcehttps''"
    by (simp add: norm_defs example_env_def)
  from inst [THEN conjunct2, THEN conjunct2, THEN conjunct2, THEN conjunct1, THEN mp,
      OF conjI [OF on_ascii at2]]
  have u: "fingerprint ?e (str_upper ?e ''open source'')
             (str_upper ?e ''https://example.com/oss'') =
           fingerprint ?e ''open source'' ''https://example.com/oss''" .
  have joined: "str_strip ?e (str_lower ?e ''ab'') @ str_strip ?e (str_lower ?e ''c'') =
      str_strip ?e (str_lower ?e ''a'') @ str_strip ?e (str_lower ?e ''bc'')"
    by (simp add: norm_defs example_env_def)
  from fingerprint_normalised [of ?e "''ab''" "''c''" "[]" "[]" "[]" "[]" "[]" "[]"
      "''a''" "''bc''", THEN conjunct2, THEN conjunct2, THEN conjunct2, THEN conjunct2,
      THEN conjunct1, THEN mp, OF joined]
  have c: "fingerprint ?e ''ab'' ''c'' = fingerprint ?e ''a'' ''bc''" .
  have inj: "inj_on (\<lambda>x. take 16 (sha256_hexdigest ?e x))
      {str_strip ?e (str_lower ?e ''a'') @ str_strip ?e (str_lower ?e ''b''),
       str_strip ?e (str_lower ?e ''a'') @ str_strip ?e (str_lower ?e ''c'')}"
    by (simp add: norm_defs example_env_def)
  have differ: "str_strip ?e (str_lower ?e ''a'') @ str_strip ?e (str_lower ?e ''b'') \<noteq>
      str_strip ?e (str_lower ?e ''a'') @ str_strip ?e (str_lower ?e ''c'')"
    by (simp add: norm_defs example_env_def)
  from fingerprint_normalised [of ?e "''a''" "''b''" "[]" "[]" "[]" "[]" "[]" "[]"
      "''a''" "''c''", THEN conjunct2, THEN conjunct2, THEN conjunct2, THEN conjunct2,
      THEN conjunct2, THEN mp, OF inj] differ
  have d: "fingerprint ?e ''a'' ''b'' \<noteq> fingerprint ?e ''a'' ''c''" by simp
  from a b b' u c d show ?thesis by simp
qed

lemma replicate_numeral_eval:
  "replicate (numeral k) x = x # replicate (pred_numeral k) x"
  by (simp add: numeral_eq_Suc)

lemmas model_defs = replicate_numeral_eval sqlite_int_def too_large_def add_feed_def example_env_def failing_env_def clashing_env_def
  flaky_env_def
  empty_state_def tech_state_def
  refresh_def get_feed_def get_feed_by_url_def simulate_fetch_def SAMPLE_FEEDS_def
  default_config_def py_slice_to_def insert_feed_item_def next_rowid_def fts_of_def
  py_get_def count_items_def mark_fetched_def mark_error_def new_item_def drawn_def Let_def

lemma tech_state_eq:
  "tech_state =
     \<lparr>feeds = [\<lparr>feed_id = ''u'', feed_name = ''TechCrunch'',
                 feed_url = ''https://techcrunch.com/feed/'', feed_category = ''tech-news'',
                 feed_fetch_interval_min = 60, feed_last_fetched = None,
                 feed_status = ACTIVE, feed_error_message = None, feed_item_count = 0,
                 feed_created_at = ''t''\<rparr>],
      feed_items = [], feed_items_fts = [], clock = 1, entropy = 1\<rparr>"
  by (simp add: model_defs)

section \<open>Refreshing a paused feed\<close>

text \<open>
  C9: for a feed whose status is paused, \<^verbatim>\<open>refresh\<close> returns the skip result and the
  whole state is as it was, whatever the environment: the fetcher is not consulted, and
  neither the feed's row nor the stored items change.
\<close>

theorem refresh_paused_is_skip:
  assumes "get_feed s fid = Some feed" and "feed_status feed = PAUSED"
  shows "refresh e fid s = (Inr (Skipped fid ''paused''), s)"
  using assms by (simp add: refresh_def)

theorem refresh_paused_is_skip_witness:
  "refresh failing_env ''u'' (snd (pause_feed ''u'' tech_state)) =
     (Inr (Skipped ''u'' ''paused''), snd (pause_feed ''u'' tech_state)) \<and>
   refresh example_env ''u'' (snd (pause_feed ''u'' tech_state)) =
     (Inr (Skipped ''u'' ''paused''), snd (pause_feed ''u'' tech_state))"
proof -
  let ?s = "snd (pause_feed ''u'' tech_state)"
  let ?f = "\<lparr>feed_id = ''u'', feed_name = ''TechCrunch'',
                 feed_url = ''https://techcrunch.com/feed/'', feed_category = ''tech-news'',
                 feed_fetch_interval_min = 60, feed_last_fetched = None,
                 feed_status = PAUSED, feed_error_message = None, feed_item_count = 0,
                 feed_created_at = ''t''\<rparr>"
  have g: "get_feed ?s ''u'' = Some ?f"
    by (simp add: tech_state_eq pause_feed_def get_feed_def)
  have p: "feed_status ?f = PAUSED" by simp
  from refresh_paused_is_skip [OF g p, of failing_env]
    refresh_paused_is_skip [OF g p, of example_env]
  show ?thesis by simp
qed

section \<open>Read and bookmark flags\<close>

lemma map_flag_absent:
  "\<not> list_ex (\<lambda>r. item_id (snd r) = iid) rows \<Longrightarrow>
   map (\<lambda>r. if item_id (snd r) = iid then (fst r, upd (snd r)) else r) rows = rows"
  by (induction rows) auto

text \<open>
  C10: for an id present in \<^verbatim>\<open>feed_items\<close>, each of \<^verbatim>\<open>mark_read\<close>,
  \<^verbatim>\<open>mark_unread\<close>, \<^verbatim>\<open>bookmark\<close> and \<^verbatim>\<open>unbookmark\<close> returns true; for an absent id
  each returns false and leaves the state as it was. In every case the feeds, the
  full-text table and all rows with another id are unchanged, and a row with the id is
  its old self with the named flag set; under the primary key there is one such row.
\<close>

theorem item_flag_operations:
  "(list_ex (\<lambda>r. item_id (snd r) = iid) (feed_items s) \<longrightarrow>
      fst (mark_read iid s) \<and> fst (mark_unread iid s) \<and>
      fst (bookmark iid s) \<and> fst (unbookmark iid s)) \<and>
   (\<not> list_ex (\<lambda>r. item_id (snd r) = iid) (feed_items s) \<longrightarrow>
      mark_read iid s = (False, s) \<and> mark_unread iid s = (False, s) \<and>
      bookmark iid s = (False, s) \<and> unbookmark iid s = (False, s)) \<and>
   flag_frame iid (\<lambda>it. it\<lparr>item_is_read := True\<rparr>) s (snd (mark_read iid s)) \<and>
   flag_frame iid (\<lambda>it. it\<lparr>item_is_read := False\<rparr>) s (snd (mark_unread iid s)) \<and>
   flag_frame iid (\<lambda>it. it\<lparr>item_is_bookmarked := True\<rparr>) s (snd (bookmark iid s)) \<and>
   flag_frame iid (\<lambda>it. it\<lparr>item_is_bookmarked := False\<rparr>) s (snd (unbookmark iid s)) \<and>
   (distinct (map (\<lambda>r. item_id (snd r)) (feed_items s)) \<longrightarrow>
      (\<forall>j<length (feed_items s). \<forall>k<length (feed_items s).
         item_id (snd (feed_items s ! j)) = iid \<and> item_id (snd (feed_items s ! k)) = iid
         \<longrightarrow> j = k))"
proof (intro conjI impI allI)
  assume "list_ex (\<lambda>r. item_id (snd r) = iid) (feed_items s)"
  then show "fst (mark_read iid s)" "fst (mark_unread iid s)"
    "fst (bookmark iid s)" "fst (unbookmark iid s)"
    by (simp_all add: mark_read_def mark_unread_def bookmark_def unbookmark_def)
next
  assume a: "\<not> list_ex (\<lambda>r. item_id (snd r) = iid) (feed_items s)"
  show "mark_read iid s = (False, s)" "mark_unread iid s = (False, s)"
    "bookmark iid s = (False, s)" "unbookmark iid s = (False, s)"
    using a by (simp_all add: mark_read_def mark_unread_def bookmark_def unbookmark_def
        map_flag_absent)
next
  show "flag_frame iid (\<lambda>it. it\<lparr>item_is_read := True\<rparr>) s (snd (mark_read iid s))"
    by (simp add: flag_frame_def mark_read_def)
  show "flag_frame iid (\<lambda>it. it\<lparr>item_is_read := False\<rparr>) s (snd (mark_unread iid s))"
    by (simp add: flag_frame_def mark_unread_def)
  show "flag_frame iid (\<lambda>it. it\<lparr>item_is_bookmarked := True\<rparr>) s (snd (bookmark iid s))"
    by (simp add: flag_frame_def bookmark_def)
  show "flag_frame iid (\<lambda>it. it\<lparr>item_is_bookmarked := False\<rparr>) s (snd (unbookmark iid s))"
    by (simp add: flag_frame_def unbookmark_def)
next
  fix j k
  assume d: "distinct (map (\<lambda>r. item_id (snd r)) (feed_items s))"
    and j: "j < length (feed_items s)" and k: "k < length (feed_items s)"
    and e: "item_id (snd (feed_items s ! j)) = iid \<and> item_id (snd (feed_items s ! k)) = iid"
  from d j k e show "j = k" by (auto simp: distinct_conv_nth)
qed

lemma fetched_state_eq:
  "fetched_state =
     \<lparr>feeds = [\<lparr>feed_id = ''u'', feed_name = ''TechCrunch'',
                 feed_url = ''https://techcrunch.com/feed/'', feed_category = ''tech-news'',
                 feed_fetch_interval_min = 60, feed_last_fetched = Some ''tttttttt'',
                 feed_status = ACTIVE, feed_error_message = None, feed_item_count = 3,
                 feed_created_at = ''t''\<rparr>],
      feed_items =
        [(1, \<lparr>item_id = ''uu'', item_feed_id = ''u'',
               item_title = ''AI Breakthrough in 2025'',
               item_url = ''https://example.com/ai-2025'',
               item_summary = ''New AI models achieve human parity on reasoning benchmarks.'',
               item_author = ''Jane Smith'',
               item_published_at = ''pppppppppppppppppppp'',
               item_fingerprint = ''ai breakthrough '', item_is_read = False,
               item_is_bookmarked = False, item_created_at = ''ttt''\<rparr>),
         (2, \<lparr>item_id = ''uuu'', item_feed_id = ''u'',
               item_title = ''Open Source Wins Big'',
               item_url = ''https://example.com/oss'',
               item_summary = ''Open source projects dominate enterprise adoption.'',
               item_author = ''John Doe'',
               item_published_at = ''pppppppppppppp'',
               item_fingerprint = ''open source wins'', item_is_read = False,
               item_is_bookmarked = False, item_created_at = ''ttttt''\<rparr>),
         (3, \<lparr>item_id = ''uuuu'', item_feed_id = ''u'',
               item_title = ''Cloud Costs Spiral'',
               item_url = ''https://example.com/cloud'',
               item_summary = ''Enterprise cloud costs up 40% year over year.'',
               item_author = ''Alice Brown'',
               item_published_at = ''pppppppp'',
               item_fingerprint = ''cloud costs spir'', item_is_read = False,
               item_is_bookmarked = False, item_created_at = ''ttttttt''\<rparr>)],
      feed_items_fts =
        [(1, ''AI Breakthrough in 2025'',
          ''New AI models achieve human parity on reasoning benchmarks.'', ''Jane Smith''),
         (2, ''Open Source Wins Big'',
          ''Open source projects dominate enterprise adoption.'', ''John Doe''),
         (3, ''Cloud Costs Spiral'',
          ''Enterprise cloud costs up 40% year over year.'', ''Alice Brown'')],
      clock = 8, entropy = 4\<rparr>"
  unfolding fetched_state_def tech_state_eq
  by (simp add: model_defs norm_defs)

theorem item_flag_operations_witness:
  "fst (mark_read ''uuu'' fetched_state) \<and>
   map (\<lambda>r. item_is_read (snd r)) (feed_items (snd (mark_read ''uuu'' fetched_state))) =
     [False, True, False] \<and>
   flag_frame ''uuu'' (\<lambda>it. it\<lparr>item_is_read := True\<rparr>) fetched_state
     (snd (mark_read ''uuu'' fetched_state)) \<and>
   bookmark ''no-such-id'' fetched_state = (False, fetched_state)"
proof -
  have present: "list_ex (\<lambda>r. item_id (snd r) = ''uuu'') (feed_items fetched_state)"
    by (simp add: fetched_state_eq)
  have absent: "\<not> list_ex (\<lambda>r. item_id (snd r) = ''no-such-id'') (feed_items fetched_state)"
    by (simp add: fetched_state_eq)
  have flags: "map (\<lambda>r. item_is_read (snd r)) (feed_items (snd (mark_read ''uuu'' fetched_state))) =
     [False, True, False]"
    by (simp add: fetched_state_eq mark_read_def)
  from item_flag_operations [of "''uuu''" fetched_state] present
  have a: "fst (mark_read ''uuu'' fetched_state)"
    and b: "flag_frame ''uuu'' (\<lambda>it. it\<lparr>item_is_read := True\<rparr>) fetched_state
     (snd (mark_read ''uuu'' fetched_state))"
    by blast+
  from item_flag_operations [of "''no-such-id''" fetched_state] absent
  have c: "bookmark ''no-such-id'' fetched_state = (False, fetched_state)"
    by blast
  from a b c flags show ?thesis by simp
qed

section \<open>The ingest loop\<close>

lemma insert_feed_item_Inr:
  "insert_feed_item it s = Inr s' \<Longrightarrow>
   \<not> list_ex (\<lambda>r. item_id (snd r) = item_id it) (feed_items s) \<and>
   s' = s\<lparr>feed_items := feed_items s @ [(next_rowid (feed_items s), it)],
          feed_items_fts := feed_items_fts s @ [fts_of (next_rowid (feed_items s), it)]\<rparr>"
  by (auto simp: insert_feed_item_def Let_def split: if_splits)

lemma ingest_Cons_cases:
  assumes "ingest e fid (raw # raws) n d s = (out, s')"
  obtains
    (no_title) "raw ''title'' = None" "out = Inl (KeyError ''title'')" "s' = s"
  | (no_url) title where "raw ''title'' = Some title" "raw ''url'' = None"
      "out = Inl (KeyError ''url'')" "s' = s"
  | (dup) title url existing where "raw ''title'' = Some title" "raw ''url'' = Some url"
      "find (\<lambda>r. item_fingerprint (snd r) = fingerprint e title url)
         (feed_items s) = Some existing"
      "ingest e fid raws n (Suc d) s = (out, s')"
  | (clash) title url err where "raw ''title'' = Some title" "raw ''url'' = Some url"
      "find (\<lambda>r. item_fingerprint (snd r) = fingerprint e title url)
         (feed_items s) = None"
      "insert_feed_item
         (new_item e fid raw title url (fingerprint e title url) s)
         (drawn s) = Inl err"
      "out = Inl err" "s' = drawn s"
  | (fresh) title url s2 where "raw ''title'' = Some title" "raw ''url'' = Some url"
      "find (\<lambda>r. item_fingerprint (snd r) = fingerprint e title url)
         (feed_items s) = None"
      "insert_feed_item
         (new_item e fid raw title url (fingerprint e title url) s)
         (drawn s) = Inr s2"
      "ingest e fid raws (Suc n) d s2 = (out, s')"
proof (cases "raw ''title''")
  case None
  with assms show ?thesis by (intro no_title) simp_all
next
  case t: (Some title)
  show ?thesis
  proof (cases "raw ''url''")
    case None
    with t assms show ?thesis by (intro no_url [of title]) simp_all
  next
    case u: (Some url)
    let ?fp = "fingerprint e title url"
    show ?thesis
    proof (cases "find (\<lambda>r. item_fingerprint (snd r) = ?fp) (feed_items s)")
      case (Some existing)
      with t u assms show ?thesis
        by (intro dup [of title url existing]) (simp_all add: Let_def)
    next
      case None
      show ?thesis
      proof (cases "insert_feed_item (new_item e fid raw title url ?fp s) (drawn s)")
        case (Inl err)
        with None t u assms show ?thesis
          by (intro clash [of title url err]) (simp_all add: Let_def)
      next
        case (Inr s2)
        with None t u assms show ?thesis
          by (intro fresh [of title url s2]) (simp_all add: Let_def)
      qed
    qed
  qed
qed

lemma ingest_feeds: "ingest e fid raws n d s = (out, s') \<Longrightarrow> feeds s' = feeds s"
proof (induction raws arbitrary: n d s)
  case Nil
  then show ?case by simp
next
  case (Cons raw raws)
  from Cons.prems show ?case
  proof (cases rule: ingest_Cons_cases)
    case (dup title url existing)
    then show ?thesis using Cons.IH by blast
  next
    case (fresh title url s2)
    from insert_feed_item_Inr [OF fresh(4)] have "feeds s2 = feeds s"
      by (simp add: drawn_def)
    with fresh Cons.IH show ?thesis by metis
  qed (simp_all add: drawn_def)
qed

lemma ingest_appends:
  "ingest e fid raws n d s = (out, s') \<Longrightarrow>
   \<exists>new. feed_items s' = feed_items s @ new \<and>
         feed_items_fts s' = feed_items_fts s @ map fts_of new \<and>
         (\<forall>r\<in>set new. item_feed_id (snd r) = fid) \<and>
         (\<forall>n' d'. out = Inr (n', d') \<longrightarrow>
            n' = n + length new \<and> n' + d' = n + d + length raws)"
proof (induction raws arbitrary: n d s)
  case Nil
  then show ?case by auto
next
  case (Cons raw raws)
  from Cons.prems show ?case
  proof (cases rule: ingest_Cons_cases)
    case (dup title url existing)
    from Cons.IH [OF dup(4)] show ?thesis by auto
  next
    case (fresh title url s2)
    let ?r = "(next_rowid (feed_items s),
               new_item e fid raw title url (fingerprint e title url) s)"
    from insert_feed_item_Inr [OF fresh(4)]
    have s2: "feed_items s2 = feed_items s @ [?r]"
      "feed_items_fts s2 = feed_items_fts s @ [fts_of ?r]"
      by (simp_all add: drawn_def)
    from Cons.IH [OF fresh(5)] obtain new where
      "feed_items s' = feed_items s2 @ new"
      "feed_items_fts s' = feed_items_fts s2 @ map fts_of new"
      "\<forall>r\<in>set new. item_feed_id (snd r) = fid"
      "\<forall>n' d'. out = Inr (n', d') \<longrightarrow>
         n' = Suc n + length new \<and> n' + d' = Suc n + d + length raws"
      by blast
    with s2 show ?thesis
      by (intro exI [of _ "?r # new"]) (auto simp: new_item_def)
  qed (auto simp: drawn_def)
qed

section \<open>A refresh that succeeds\<close>

lemma find_feed_map:
  assumes "\<And>f. feed_id (g f) = feed_id f"
  shows "find (\<lambda>f. feed_id f = x) (map (\<lambda>f. if feed_id f = fid then g f else f) fs) =
         (if x = fid then map_option g (find (\<lambda>f. feed_id f = x) fs)
          else find (\<lambda>f. feed_id f = x) fs)"
  by (induction fs) (auto simp: assms)

lemma get_feed_mark_fetched:
  "get_feed (mark_fetched fid t c s) x =
     (if x = fid
      then map_option (\<lambda>f. f\<lparr>feed_last_fetched := Some t, feed_status := ACTIVE,
                               feed_item_count := c\<rparr>) (get_feed s x)
      else get_feed s x)"
  unfolding get_feed_def mark_fetched_def
  using find_feed_map [of "\<lambda>f. f\<lparr>feed_last_fetched := Some t, feed_status := ACTIVE,
                               feed_item_count := c\<rparr>" x fid "feeds s"]
  by simp

lemma get_feed_mark_error:
  "get_feed (mark_error fid err s) x =
     (if x = fid
      then map_option (\<lambda>f. f\<lparr>feed_status := ERROR, feed_error_message := Some (py_str err)\<rparr>)
             (get_feed s x)
      else get_feed s x)"
  unfolding get_feed_def mark_error_def
  using find_feed_map [of "\<lambda>f. f\<lparr>feed_status := ERROR,
      feed_error_message := Some (py_str err)\<rparr>" x fid "feeds s"]
  by simp

lemma refresh_success_eq:
  assumes "get_feed s fid = Some feed" and "feed_status feed \<noteq> PAUSED"
    and "fetcher e feed = Inr raws" and "ingest e fid raws 0 0 s = (Inr (n, d), s1)"
  shows "refresh e fid s =
     (Inr (Refreshed fid n d (count_items fid s1)),
      mark_fetched fid (now e (clock s1)) (count_items fid s1) (s1\<lparr>clock := Suc (clock s1)\<rparr>))"
  using assms by (simp add: refresh_def Let_def)

lemma refresh_success_facts:
  assumes "get_feed s fid = Some feed" and "feed_status feed \<noteq> PAUSED"
    and "fetcher e feed = Inr raws" and "ingest e fid raws 0 0 s = (Inr (n, d), s1)"
  shows "fst (refresh e fid s) =
           Inr (Refreshed fid n d (count_items fid (snd (refresh e fid s)))) \<and>
         get_feed (snd (refresh e fid s)) fid =
           Some (feed\<lparr>feed_last_fetched := Some (now e (clock s1)),
                       feed_status := ACTIVE,
                       feed_item_count := count_items fid (snd (refresh e fid s))\<rparr>) \<and>
         (\<forall>x. x \<noteq> fid \<longrightarrow> get_feed (snd (refresh e fid s)) x = get_feed s x) \<and>
         length (feed_items (snd (refresh e fid s))) = length (feed_items s) + n \<and>
         n + d = length raws \<and>
         clock (snd (refresh e fid s)) = Suc (clock s1)"
proof -
  let ?s' = "mark_fetched fid (now e (clock s1)) (count_items fid s1)
               (s1\<lparr>clock := Suc (clock s1)\<rparr>)"
  have r: "refresh e fid s = (Inr (Refreshed fid n d (count_items fid s1)), ?s')"
    using assms by (rule refresh_success_eq)
  have items: "feed_items ?s' = feed_items s1" by (simp add: mark_fetched_def)
  then have cnt: "count_items fid ?s' = count_items fid s1" by (simp add: count_items_def)
  have fs: "feeds s1 = feeds s" using assms(4) by (rule ingest_feeds)
  then have g1: "get_feed (s1\<lparr>clock := Suc (clock s1)\<rparr>) x = get_feed s x" for x
    by (simp add: get_feed_def)
  from ingest_appends [OF assms(4)] obtain new where
    new: "feed_items s1 = feed_items s @ new" "n = length new" "n + d = length raws"
    by auto
  show ?thesis
    unfolding r fst_conv snd_conv cnt
    using new assms(1)
    by (simp add: get_feed_mark_fetched g1 items) (simp add: mark_fetched_def)
qed

lemma failed_state_eq:
  "failed_state =
     \<lparr>feeds = [\<lparr>feed_id = ''u'', feed_name = ''TechCrunch'',
                 feed_url = ''https://techcrunch.com/feed/'', feed_category = ''tech-news'',
                 feed_fetch_interval_min = 60, feed_last_fetched = None,
                 feed_status = ERROR, feed_error_message = Some ''timed out'',
                 feed_item_count = 0, feed_created_at = ''t''\<rparr>],
      feed_items = [], feed_items_fts = [], clock = 1, entropy = 1\<rparr>"
  unfolding failed_state_def tech_state_eq
  by (simp add: model_defs)

text \<open>
  C1 (amended): when the feed exists, is not paused, the fetcher returns and every insert
  succeeds, \<^verbatim>\<open>refresh\<close> returns the summary with the number of rows inserted, the
  number of raw items skipped as duplicates (the two add up to the number of raw items)
  and the count of the rows owned by the feed; the feed's row has this count as its
  item count, the status active and the reading of the clock as last-fetched time. All
  its other fields are as before, the error message among them: it is not cleared. The
  other feeds are untouched.
\<close>

theorem refresh_success:
  assumes "get_feed s fid = Some feed" and "feed_status feed \<noteq> PAUSED"
    and "fetcher e feed = Inr raws" and "ingest e fid raws 0 0 s = (Inr (n, d), s1)"
  shows "fst (refresh e fid s) =
           Inr (Refreshed fid n d (count_items fid (snd (refresh e fid s)))) \<and>
         get_feed (snd (refresh e fid s)) fid =
           Some (feed\<lparr>feed_last_fetched := Some (now e (clock s1)),
                       feed_status := ACTIVE,
                       feed_item_count := count_items fid (snd (refresh e fid s))\<rparr>) \<and>
         (\<forall>x. x \<noteq> fid \<longrightarrow> get_feed (snd (refresh e fid s)) x = get_feed s x) \<and>
         length (feed_items (snd (refresh e fid s))) = length (feed_items s) + n \<and>
         n + d = length raws \<and>
         clock (snd (refresh e fid s)) = Suc (clock s1)"
  using assms by (rule refresh_success_facts)

text \<open>
  C1 (as stated): a refresh that succeeds clears the error message. The update writes
  \<^verbatim>\<open>last_fetched\<close>, \<^verbatim>\<open>status\<close> and \<^verbatim>\<open>item_count\<close> only: after a failed refresh
  followed by one that succeeds, the feed is active and still carries the message.
\<close>

theorem refresh_keeps_error_message_counterexample:
  "fst (refresh example_env ''u'' failed_state) = Inr (Refreshed ''u'' 3 0 3) \<and>
   map feed_status (feeds (snd (refresh example_env ''u'' failed_state))) = [ACTIVE] \<and>
   map feed_error_message (feeds (snd (refresh example_env ''u'' failed_state))) =
     [Some ''timed out'']"
  unfolding failed_state_eq
  by (simp add: model_defs norm_defs)

theorem refresh_success_witness:
  "fst (refresh example_env ''u'' tech_state) = Inr (Refreshed ''u'' 3 0 3) \<and>
   get_feed (snd (refresh example_env ''u'' tech_state)) ''u'' =
     Some \<lparr>feed_id = ''u'', feed_name = ''TechCrunch'',
            feed_url = ''https://techcrunch.com/feed/'', feed_category = ''tech-news'',
            feed_fetch_interval_min = 60, feed_last_fetched = Some ''tttttttt'',
            feed_status = ACTIVE, feed_error_message = None, feed_item_count = 3,
            feed_created_at = ''t''\<rparr>"
proof -
  let ?f = "\<lparr>feed_id = ''u'', feed_name = ''TechCrunch'',
            feed_url = ''https://techcrunch.com/feed/'', feed_category = ''tech-news'',
            feed_fetch_interval_min = 60, feed_last_fetched = None,
            feed_status = ACTIVE, feed_error_message = None, feed_item_count = 0,
            feed_created_at = ''t''\<rparr>"
  let ?raws = "simulate_fetch default_config (\<lambda>h. drop h ''pppppppppppppppppppp'') ?f"
  let ?s1 = "snd (ingest example_env ''u'' ?raws 0 0 tech_state)"
  have g: "get_feed tech_state ''u'' = Some ?f"
    by (simp add: tech_state_eq get_feed_def)
  have p: "feed_status ?f \<noteq> PAUSED" by simp
  have f: "fetcher example_env ?f = Inr ?raws" by (simp add: example_env_def)
  have "fst (ingest example_env ''u'' ?raws 0 0 tech_state) = Inr (3, 0)"
    unfolding tech_state_eq by (simp add: model_defs norm_defs)
  then have i: "ingest example_env ''u'' ?raws 0 0 tech_state = (Inr (3, 0), ?s1)"
    by (simp add: prod_eq_iff)
  have c: "clock ?s1 = 7"
    unfolding tech_state_eq by (simp add: model_defs norm_defs)
  have t: "now example_env 7 = ''tttttttt''"
    by (simp add: example_env_def eval_nat_numeral)
  have n: "count_items ''u'' fetched_state = 3"
    by (simp add: fetched_state_eq count_items_def)
  from refresh_success [OF g p f i] c t n show ?thesis
    by (simp add: fetched_state_def)
qed

section \<open>A refresh that fails\<close>

lemma ingest_append:
  "ingest e fid (pre @ rest) n d s =
     (case ingest e fid pre n d s of
        (Inl err, s1) \<Rightarrow> (Inl err, s1)
      | (Inr (n1, d1), s1) \<Rightarrow> ingest e fid rest n1 d1 s1)"
  by (induction pre arbitrary: n d s)
     (simp_all add: Let_def split: option.splits sum.splits)

lemma refresh_failure_cases:
  assumes "get_feed s fid = Some feed" and "fst (refresh e fid s) = Inl err"
  obtains (fetch) "feed_status feed \<noteq> PAUSED" "fetcher e feed = Inl err"
      "snd (refresh e fid s) = mark_error fid err s"
  | (store) raws s1 where "feed_status feed \<noteq> PAUSED" "fetcher e feed = Inr raws"
      "ingest e fid raws 0 0 s = (Inl err, s1)"
      "snd (refresh e fid s) = mark_error fid err s1"
proof (cases "feed_status feed = PAUSED")
  case True
  with assms show ?thesis by (simp add: refresh_def)
next
  case np: False
  show ?thesis
  proof (cases "fetcher e feed")
    case (Inl ferr)
    with np assms show ?thesis by (intro fetch) (simp_all add: refresh_def)
  next
    case (Inr raws)
    obtain out s1 where i: "ingest e fid raws 0 0 s = (out, s1)" by force
    show ?thesis
    proof (cases out)
      case (Inl ierr)
      with i Inr np assms show ?thesis
        by (intro store [of raws s1]) (simp_all add: refresh_def)
    next
      case r: (Inr nd)
      with i Inr np assms show ?thesis
        by (cases nd) (simp add: refresh_def Let_def)
    qed
  qed
qed

lemma refresh_failure_effect:
  assumes "get_feed s fid = Some feed" and "fst (refresh e fid s) = Inl err"
  shows "get_feed (snd (refresh e fid s)) fid =
           Some (feed\<lparr>feed_status := ERROR, feed_error_message := Some (py_str err)\<rparr>) \<and>
         (\<forall>x. x \<noteq> fid \<longrightarrow> get_feed (snd (refresh e fid s)) x = get_feed s x) \<and>
         (\<forall>ferr. fetcher e feed = Inl ferr \<longrightarrow> err = ferr) \<and>
         (\<forall>raws. fetcher e feed = Inr raws \<longrightarrow> fst (ingest e fid raws 0 0 s) = Inl err) \<and>
         take (length (feed_items s)) (feed_items (snd (refresh e fid s))) = feed_items s \<and>
         (\<forall>pre rest n d sp.
            fetcher e feed = Inr (pre @ rest) \<and> ingest e fid pre 0 0 s = (Inr (n, d), sp) \<longrightarrow>
            take (length (feed_items sp)) (feed_items (snd (refresh e fid s))) =
              feed_items sp \<and>
            length (feed_items sp) = length (feed_items s) + n)"
  using assms
proof (cases rule: refresh_failure_cases)
  case fetch
  then show ?thesis
    using assms(1) by (auto simp: get_feed_mark_error) (simp add: mark_error_def)
next
  case (store raws s1)
  have fs: "feeds s1 = feeds s" using store(3) by (rule ingest_feeds)
  then have g1: "get_feed s1 x = get_feed s x" for x by (simp add: get_feed_def)
  have items: "feed_items (mark_error fid err s1) = feed_items s1"
    by (simp add: mark_error_def)
  from ingest_appends [OF store(3)] obtain new where
    new: "feed_items s1 = feed_items s @ new" by blast
  have pre: "take (length (feed_items sp)) (feed_items s1) = feed_items sp \<and>
      length (feed_items sp) = length (feed_items s) + n"
    if "raws = pre @ rest" and "ingest e fid pre 0 0 s = (Inr (n, d), sp)"
    for pre rest n d sp
  proof -
    from that store(3) have "ingest e fid rest n d sp = (Inl err, s1)"
      by (simp add: ingest_append)
    from ingest_appends [OF this] obtain more where
      "feed_items s1 = feed_items sp @ more" by blast
    moreover from ingest_appends [OF that(2)]
    have "length (feed_items sp) = length (feed_items s) + n" by auto
    ultimately show ?thesis by simp
  qed
  have a: "get_feed (mark_error fid err s1) fid =
      Some (feed\<lparr>feed_status := ERROR, feed_error_message := Some (py_str err)\<rparr>)"
    using assms(1) by (simp add: get_feed_mark_error g1)
  have b: "\<forall>x. x \<noteq> fid \<longrightarrow> get_feed (mark_error fid err s1) x = get_feed s x"
    by (simp add: get_feed_mark_error g1)
  have c: "\<forall>ferr. fetcher e feed = Inl ferr \<longrightarrow> err = ferr"
    using store(2) by simp
  have d: "\<forall>raws. fetcher e feed = Inr raws \<longrightarrow> fst (ingest e fid raws 0 0 s) = Inl err"
    using store(2,3) by simp
  have e: "take (length (feed_items s)) (feed_items s1) = feed_items s"
    using new by simp
  have f: "\<forall>pre rest n d sp.
      fetcher e feed = Inr (pre @ rest) \<and> ingest e fid pre 0 0 s = (Inr (n, d), sp) \<longrightarrow>
      take (length (feed_items sp)) (feed_items s1) = feed_items sp \<and>
      length (feed_items sp) = length (feed_items s) + n"
    using pre store(2) by (metis sum.inject(2))
  show ?thesis
    unfolding store(4) items using a b c d e f by blast
qed

lemma refresh_fetcher_raises:
  assumes "get_feed s fid = Some feed" and "feed_status feed \<noteq> PAUSED"
    and "fetcher e feed = Inl ferr"
  shows "refresh e fid s = (Inl ferr, mark_error fid ferr s)"
  using assms by (simp add: refresh_def)

lemma refresh_ingest_raises:
  assumes "get_feed s fid = Some feed" and "feed_status feed \<noteq> PAUSED"
    and "fetcher e feed = Inr raws" and "ingest e fid raws 0 0 s = (Inl err, sf)"
  shows "refresh e fid s = (Inl err, mark_error fid err sf)"
  using assms by (simp add: refresh_def)

lemma ingest_one_raises:
  assumes "ingest e fid [raw] n d sp = (Inl err, sf)"
  shows "feed_items sf = feed_items sp \<and> feed_items_fts sf = feed_items_fts sp \<and>
         feeds sf = feeds sp"
  using assms
proof (cases rule: ingest_Cons_cases)
  case (dup title url existing)
  then show ?thesis by simp
next
  case (fresh title url s2)
  then show ?thesis by simp
qed (simp_all add: drawn_def)

lemma ingest_one_causes:
  "(raw ''title'' = None \<longrightarrow> ingest e fid [raw] n d sp = (Inl (KeyError ''title''), sp)) \<and>
   (raw ''title'' \<noteq> None \<and> raw ''url'' = None \<longrightarrow>
      ingest e fid [raw] n d sp = (Inl (KeyError ''url''), sp)) \<and>
   (raw ''title'' = Some title \<and> raw ''url'' = Some url \<and>
    find (\<lambda>r. item_fingerprint (snd r) = fingerprint e title url) (feed_items sp) = None \<and>
    list_ex (\<lambda>r. item_id (snd r) = uuid4 e (entropy sp)) (feed_items sp) \<longrightarrow>
      ingest e fid [raw] n d sp =
        (Inl (IntegrityError ''UNIQUE constraint failed: feed_items.id''), drawn sp))"
  by (auto simp: Let_def insert_feed_item_def new_item_def drawn_def)

lemma refresh_item_raises:
  assumes g: "get_feed s fid = Some feed" and np: "feed_status feed \<noteq> PAUSED"
    and f: "fetcher e feed = Inr (pre @ raw # rest)"
    and p: "ingest e fid pre 0 0 s = (Inr (n, d), sp)"
    and r: "ingest e fid [raw] n d sp = (Inl err, sf)"
  shows "refresh e fid s = (Inl err, mark_error fid err sf)"
proof -
  have "ingest e fid ([raw] @ rest) n d sp = (Inl err, sf)"
    unfolding ingest_append [of e fid "[raw]" rest] using r by simp
  then have "ingest e fid (pre @ raw # rest) 0 0 s = (Inl err, sf)"
    unfolding ingest_append [of e fid pre "raw # rest"] using p by simp
  with g np f show ?thesis by (rule refresh_ingest_raises)
qed

text \<open>
  C5: for an existing feed that is not paused, a fetcher that raises makes \<^verbatim>\<open>refresh\<close>
  raise the same error with no row stored or removed; a raw item whose handling raises (a
  missing title or url, or an insert that the primary key rejects) after the items
  before it have been handled makes \<^verbatim>\<open>refresh\<close> raise that error with exactly the rows
  stored up to then, those of the earlier items included: nothing is rolled back. In
  each case, and whenever \<^verbatim>\<open>refresh\<close> of an existing feed raises at all, the feed's row
  has the status error and the text of the error as its message, its other fields and
  the other feeds are as before, and every row stored before the call is still there.
\<close>

theorem refresh_failure:
  assumes "get_feed s fid = Some feed"
  shows "(feed_status feed \<noteq> PAUSED \<and> fetcher e feed = Inl ferr \<longrightarrow>
            fst (refresh e fid s) = Inl ferr \<and>
            feed_items (snd (refresh e fid s)) = feed_items s \<and>
            feed_items_fts (snd (refresh e fid s)) = feed_items_fts s \<and>
            get_feed (snd (refresh e fid s)) fid =
              Some (feed\<lparr>feed_status := ERROR, feed_error_message := Some (py_str ferr)\<rparr>)) \<and>
         (feed_status feed \<noteq> PAUSED \<and> fetcher e feed = Inr (pre @ raw # rest) \<and>
          ingest e fid pre 0 0 s = (Inr (n, d), sp) \<and>
          ingest e fid [raw] n d sp = (Inl ierr, sf) \<longrightarrow>
            fst (refresh e fid s) = Inl ierr \<and>
            feed_items (snd (refresh e fid s)) = feed_items sp \<and>
            feed_items_fts (snd (refresh e fid s)) = feed_items_fts sp \<and>
            length (feed_items sp) = length (feed_items s) + n \<and>
            take (length (feed_items s)) (feed_items sp) = feed_items s \<and>
            get_feed (snd (refresh e fid s)) fid =
              Some (feed\<lparr>feed_status := ERROR, feed_error_message := Some (py_str ierr)\<rparr>)) \<and>
         (raw ''title'' = None \<longrightarrow>
            ingest e fid [raw] n d sp = (Inl (KeyError ''title''), sp)) \<and>
         (raw ''title'' \<noteq> None \<and> raw ''url'' = None \<longrightarrow>
            ingest e fid [raw] n d sp = (Inl (KeyError ''url''), sp)) \<and>
         (raw ''title'' = Some title \<and> raw ''url'' = Some url \<and>
          find (\<lambda>r. item_fingerprint (snd r) = fingerprint e title url) (feed_items sp) = None \<and>
          list_ex (\<lambda>r. item_id (snd r) = uuid4 e (entropy sp)) (feed_items sp) \<longrightarrow>
            ingest e fid [raw] n d sp =
              (Inl (IntegrityError ''UNIQUE constraint failed: feed_items.id''), drawn sp)) \<and>
         (\<forall>err. fst (refresh e fid s) = Inl err \<longrightarrow>
            get_feed (snd (refresh e fid s)) fid =
              Some (feed\<lparr>feed_status := ERROR, feed_error_message := Some (py_str err)\<rparr>) \<and>
            (\<forall>x. x \<noteq> fid \<longrightarrow> get_feed (snd (refresh e fid s)) x = get_feed s x) \<and>
            (\<forall>ferr. fetcher e feed = Inl ferr \<longrightarrow> err = ferr) \<and>
            (\<forall>raws. fetcher e feed = Inr raws \<longrightarrow> fst (ingest e fid raws 0 0 s) = Inl err) \<and>
            take (length (feed_items s)) (feed_items (snd (refresh e fid s))) = feed_items s \<and>
            (\<forall>pre rest n d sp.
               fetcher e feed = Inr (pre @ rest) \<and>
               ingest e fid pre 0 0 s = (Inr (n, d), sp) \<longrightarrow>
               take (length (feed_items sp)) (feed_items (snd (refresh e fid s))) =
                 feed_items sp \<and>
               length (feed_items sp) = length (feed_items s) + n))"
proof (intro conjI)
  show "feed_status feed \<noteq> PAUSED \<and> fetcher e feed = Inl ferr \<longrightarrow>
            fst (refresh e fid s) = Inl ferr \<and>
            feed_items (snd (refresh e fid s)) = feed_items s \<and>
            feed_items_fts (snd (refresh e fid s)) = feed_items_fts s \<and>
            get_feed (snd (refresh e fid s)) fid =
              Some (feed\<lparr>feed_status := ERROR, feed_error_message := Some (py_str ferr)\<rparr>)"
  proof
    assume "feed_status feed \<noteq> PAUSED \<and> fetcher e feed = Inl ferr"
    with assms have eq: "refresh e fid s = (Inl ferr, mark_error fid ferr s)"
      by (simp add: refresh_fetcher_raises)
    then have "fst (refresh e fid s) = Inl ferr" by simp
    from refresh_failure_effect [OF assms this, THEN conjunct1] eq
    show "fst (refresh e fid s) = Inl ferr \<and>
            feed_items (snd (refresh e fid s)) = feed_items s \<and>
            feed_items_fts (snd (refresh e fid s)) = feed_items_fts s \<and>
            get_feed (snd (refresh e fid s)) fid =
              Some (feed\<lparr>feed_status := ERROR, feed_error_message := Some (py_str ferr)\<rparr>)"
      by (simp add: mark_error_def)
  qed
next
  show "feed_status feed \<noteq> PAUSED \<and> fetcher e feed = Inr (pre @ raw # rest) \<and>
          ingest e fid pre 0 0 s = (Inr (n, d), sp) \<and>
          ingest e fid [raw] n d sp = (Inl ierr, sf) \<longrightarrow>
            fst (refresh e fid s) = Inl ierr \<and>
            feed_items (snd (refresh e fid s)) = feed_items sp \<and>
            feed_items_fts (snd (refresh e fid s)) = feed_items_fts sp \<and>
            length (feed_items sp) = length (feed_items s) + n \<and>
            take (length (feed_items s)) (feed_items sp) = feed_items s \<and>
            get_feed (snd (refresh e fid s)) fid =
              Some (feed\<lparr>feed_status := ERROR, feed_error_message := Some (py_str ierr)\<rparr>)"
  proof
    assume a: "feed_status feed \<noteq> PAUSED \<and> fetcher e feed = Inr (pre @ raw # rest) \<and>
          ingest e fid pre 0 0 s = (Inr (n, d), sp) \<and>
          ingest e fid [raw] n d sp = (Inl ierr, sf)"
    then have np: "feed_status feed \<noteq> PAUSED"
      and f: "fetcher e feed = Inr (pre @ raw # rest)"
      and p: "ingest e fid pre 0 0 s = (Inr (n, d), sp)"
      and r: "ingest e fid [raw] n d sp = (Inl ierr, sf)"
      by simp_all
    from refresh_item_raises [OF assms np f p r]
    have eq: "refresh e fid s = (Inl ierr, mark_error fid ierr sf)" .
    from ingest_one_raises [OF r]
    have sf: "feed_items sf = feed_items sp" "feed_items_fts sf = feed_items_fts sp"
      by simp_all
    from ingest_appends [OF p] obtain new where
      "feed_items sp = feed_items s @ new" "n = 0 + length new" by blast
    then have "length (feed_items sp) = length (feed_items s) + n"
      "take (length (feed_items s)) (feed_items sp) = feed_items s"
      by simp_all
    moreover from eq have "fst (refresh e fid s) = Inl ierr" by simp
    note refresh_failure_effect [OF assms this, THEN conjunct1]
    ultimately show "fst (refresh e fid s) = Inl ierr \<and>
            feed_items (snd (refresh e fid s)) = feed_items sp \<and>
            feed_items_fts (snd (refresh e fid s)) = feed_items_fts sp \<and>
            length (feed_items sp) = length (feed_items s) + n \<and>
            take (length (feed_items s)) (feed_items sp) = feed_items s \<and>
            get_feed (snd (refresh e fid s)) fid =
              Some (feed\<lparr>feed_status := ERROR, feed_error_message := Some (py_str ierr)\<rparr>)"
      using sf eq by (simp add: mark_error_def)
  qed
next
  show "raw ''title'' = None \<longrightarrow>
            ingest e fid [raw] n d sp = (Inl (KeyError ''title''), sp)"
    using ingest_one_causes [of raw e fid n d sp] by blast
next
  show "raw ''title'' \<noteq> None \<and> raw ''url'' = None \<longrightarrow>
            ingest e fid [raw] n d sp = (Inl (KeyError ''url''), sp)"
    using ingest_one_causes [of raw e fid n d sp] by blast
next
  show "raw ''title'' = Some title \<and> raw ''url'' = Some url \<and>
          find (\<lambda>r. item_fingerprint (snd r) = fingerprint e title url) (feed_items sp) = None \<and>
          list_ex (\<lambda>r. item_id (snd r) = uuid4 e (entropy sp)) (feed_items sp) \<longrightarrow>
            ingest e fid [raw] n d sp =
              (Inl (IntegrityError ''UNIQUE constraint failed: feed_items.id''), drawn sp)"
    using ingest_one_causes [of raw e fid n d sp title url] by blast
next
  show "\<forall>err. fst (refresh e fid s) = Inl err \<longrightarrow>
            get_feed (snd (refresh e fid s)) fid =
              Some (feed\<lparr>feed_status := ERROR, feed_error_message := Some (py_str err)\<rparr>) \<and>
            (\<forall>x. x \<noteq> fid \<longrightarrow> get_feed (snd (refresh e fid s)) x = get_feed s x) \<and>
            (\<forall>ferr. fetcher e feed = Inl ferr \<longrightarrow> err = ferr) \<and>
            (\<forall>raws. fetcher e feed = Inr raws \<longrightarrow> fst (ingest e fid raws 0 0 s) = Inl err) \<and>
            take (length (feed_items s)) (feed_items (snd (refresh e fid s))) = feed_items s \<and>
            (\<forall>pre rest n d sp.
               fetcher e feed = Inr (pre @ rest) \<and>
               ingest e fid pre 0 0 s = (Inr (n, d), sp) \<longrightarrow>
               take (length (feed_items sp)) (feed_items (snd (refresh e fid s))) =
                 feed_items sp \<and>
               length (feed_items sp) = length (feed_items s) + n)"
    using refresh_failure_effect [OF assms] by blast
qed

theorem refresh_failure_witness:
  "fst (refresh failing_env ''u'' tech_state) = Inl (FetchError ''timed out'') \<and>
   feed_items (snd (refresh failing_env ''u'' tech_state)) = [] \<and>
   fst (refresh clashing_env ''u'' tech_state) =
     Inl (IntegrityError ''UNIQUE constraint failed: feed_items.id'') \<and>
   get_feed (snd (refresh clashing_env ''u'' tech_state)) ''u'' =
     Some \<lparr>feed_id = ''u'', feed_name = ''TechCrunch'',
            feed_url = ''https://techcrunch.com/feed/'', feed_category = ''tech-news'',
            feed_fetch_interval_min = 60, feed_last_fetched = None,
            feed_status = ERROR,
            feed_error_message = Some ''UNIQUE constraint failed: feed_items.id'',
            feed_item_count = 0, feed_created_at = ''t''\<rparr> \<and>
   map (\<lambda>r. item_title (snd r)) (feed_items (snd (refresh clashing_env ''u'' tech_state))) =
     [''AI Breakthrough in 2025'']"
proof -
  let ?f = "\<lparr>feed_id = ''u'', feed_name = ''TechCrunch'',
            feed_url = ''https://techcrunch.com/feed/'', feed_category = ''tech-news'',
            feed_fetch_interval_min = 60, feed_last_fetched = None,
            feed_status = ACTIVE, feed_error_message = None, feed_item_count = 0,
            feed_created_at = ''t''\<rparr>"
  let ?raws = "simulate_fetch default_config (\<lambda>h. drop h ''pppppppppppppppppppp'') ?f"
  let ?pre = "take 1 ?raws"
  let ?raw = "hd (drop 1 ?raws)"
  let ?rest = "drop 2 ?raws"
  let ?sp = "snd (ingest clashing_env ''u'' ?pre 0 0 tech_state)"
  let ?sf = "snd (ingest clashing_env ''u'' [?raw] 1 0 ?sp)"
  let ?ierr = "IntegrityError ''UNIQUE constraint failed: feed_items.id''"
  have g: "get_feed tech_state ''u'' = Some ?f"
    by (simp add: tech_state_eq get_feed_def)
  have np: "feed_status ?f \<noteq> PAUSED" by simp
  have ff: "fetcher failing_env ?f = Inl (FetchError ''timed out'')"
    by (simp add: failing_env_def)
  from refresh_failure [OF g, of failing_env "FetchError ''timed out''", THEN conjunct1,
      THEN mp, OF conjI [OF np ff]]
  have a: "fst (refresh failing_env ''u'' tech_state) = Inl (FetchError ''timed out'')"
    and a': "feed_items (snd (refresh failing_env ''u'' tech_state)) = feed_items tech_state"
    by simp_all
  have f: "fetcher clashing_env ?f = Inr (?pre @ ?raw # ?rest)"
    by (simp add: model_defs)
  have "fst (ingest clashing_env ''u'' ?pre 0 0 tech_state) = Inr (1, 0)"
    unfolding tech_state_eq by (simp add: model_defs norm_defs)
  then have i: "ingest clashing_env ''u'' ?pre 0 0 tech_state = (Inr (1, 0), ?sp)"
    by (simp add: prod_eq_iff)
  have sp: "map (\<lambda>r. item_title (snd r)) (feed_items ?sp) = [''AI Breakthrough in 2025'']"
    unfolding tech_state_eq by (simp add: model_defs norm_defs)
  have "fst (ingest clashing_env ''u'' [?raw] 1 0 ?sp) = Inl ?ierr"
    unfolding tech_state_eq by (simp add: model_defs norm_defs)
  then have r: "ingest clashing_env ''u'' [?raw] 1 0 ?sp = (Inl ?ierr, ?sf)"
    by (simp add: prod_eq_iff)
  from refresh_failure [OF g, of clashing_env _ ?pre ?raw ?rest 1 0 ?sp ?ierr ?sf,
      THEN conjunct2, THEN conjunct1, THEN mp, OF conjI [OF np conjI [OF f conjI [OF i r]]]]
  have b: "fst (refresh clashing_env ''u'' tech_state) = Inl ?ierr"
    and c: "feed_items (snd (refresh clashing_env ''u'' tech_state)) = feed_items ?sp"
    by simp_all
  from refresh_failure [OF g, of clashing_env, THEN conjunct2, THEN conjunct2,
      THEN conjunct2, THEN conjunct2, THEN conjunct2, THEN spec, THEN mp, OF b]
  have d: "get_feed (snd (refresh clashing_env ''u'' tech_state)) ''u'' =
      Some (?f\<lparr>feed_status := ERROR, feed_error_message := Some (py_str ?ierr)\<rparr>)"
    by (rule conjunct1)
  have e: "feed_items tech_state = []" by (simp add: tech_state_eq)
  from a a' b c d e sp show ?thesis by simp
qed

section \<open>Refreshing again\<close>

lemma find_fingerprint_Some:
  "row \<in> set rows \<Longrightarrow> item_fingerprint (snd row) = fp \<Longrightarrow>
   \<exists>existing. find (\<lambda>r. item_fingerprint (snd r) = fp) rows = Some existing"
  by (induction rows) auto

lemma ingest_known:
  assumes "raw ''title'' = Some t" and "raw ''url'' = Some u"
    and "row \<in> set (feed_items s)"
    and "item_fingerprint (snd row) = fingerprint e t u"
  shows "ingest e fid (raw # raws) n d s = ingest e fid raws n (Suc d) s"
proof -
  from find_fingerprint_Some [OF assms(3,4)] obtain existing where
    "find (\<lambda>r. item_fingerprint (snd r) = fingerprint e t u)
       (feed_items s) = Some existing" ..
  with assms(1,2) show ?thesis by (simp add: Let_def)
qed

lemma ingest_all_known:
  assumes "\<forall>raw\<in>set raws. \<exists>t u row. raw ''title'' = Some t \<and> raw ''url'' = Some u \<and>
      row \<in> set (feed_items s) \<and>
      item_fingerprint (snd row) = fingerprint e t u"
  shows "ingest e fid raws n d s = (Inr (n, d + length raws), s)"
  using assms
proof (induction raws arbitrary: d)
  case Nil
  then show ?case by simp
next
  case (Cons raw raws)
  from Cons.prems obtain t u row where
    "raw ''title'' = Some t" "raw ''url'' = Some u" "row \<in> set (feed_items s)"
    "item_fingerprint (snd row) = fingerprint e t u"
    by auto
  then have "ingest e fid (raw # raws) n d s = ingest e fid raws n (Suc d) s"
    by (rule ingest_known)
  also have "\<dots> = (Inr (n, Suc d + length raws), s)"
    using Cons.prems by (intro Cons.IH) simp
  finally show ?case by simp
qed

lemma ingest_makes_known:
  assumes "ingest e fid raws n d s = (Inr nd, s')"
  shows "\<forall>raw\<in>set raws. \<exists>t u row. raw ''title'' = Some t \<and> raw ''url'' = Some u \<and>
      row \<in> set (feed_items s') \<and>
      item_fingerprint (snd row) = fingerprint e t u"
  using assms
proof (induction raws arbitrary: n d s)
  case Nil
  then show ?case by simp
next
  case (Cons raw raws)
  from Cons.prems show ?case
  proof (cases rule: ingest_Cons_cases)
    case (dup title url existing)
    from dup(3) have "existing \<in> set (feed_items s)"
      "item_fingerprint (snd existing) = fingerprint e title url"
      by (auto simp: find_Some_iff)
    moreover from ingest_appends [OF dup(4)] have "set (feed_items s) \<subseteq> set (feed_items s')"
      by auto
    ultimately have "\<exists>t u row. raw ''title'' = Some t \<and> raw ''url'' = Some u \<and>
        row \<in> set (feed_items s') \<and>
        item_fingerprint (snd row) = fingerprint e t u"
      using dup(1,2) by blast
    with Cons.IH [OF dup(4)] show ?thesis by simp
  next
    case (fresh title url s2)
    let ?r = "(next_rowid (feed_items s),
               new_item e fid raw title url (fingerprint e title url) s)"
    from insert_feed_item_Inr [OF fresh(4)] have "?r \<in> set (feed_items s2)"
      by (simp add: drawn_def)
    moreover from ingest_appends [OF fresh(5)] have "set (feed_items s2) \<subseteq> set (feed_items s')"
      by auto
    moreover have "item_fingerprint (snd ?r) = fingerprint e title url"
      by (simp add: new_item_def)
    ultimately have "\<exists>t u row. raw ''title'' = Some t \<and> raw ''url'' = Some u \<and>
        row \<in> set (feed_items s') \<and>
        item_fingerprint (snd row) = fingerprint e t u"
      using fresh(1,2) by blast
    with Cons.IH [OF fresh(5)] show ?thesis by simp
  qed simp_all
qed

text \<open>
  C3 (amended): when a refresh of a feed succeeds and the next refresh of that feed is
  given the same raw items (and computes the same fingerprints), the second returns no new items, as
  many duplicates as there are raw items, which is the sum of the new items and the
  duplicates of the first, and the same total; it stores nothing. In general a raw item
  whose fingerprint is carried by a stored row, whatever feed owns the row, is counted as
  a duplicate and skipped.
\<close>

theorem refresh_twice:
  assumes "get_feed s fid = Some feed" and "feed_status feed \<noteq> PAUSED"
    and "fetcher e feed = Inr raws" and "ingest e fid raws 0 0 s = (Inr (n, d), s1)"
    and "get_feed (snd (refresh e fid s)) fid = Some feed2"
    and "fetcher e2 feed2 = Inr raws" and "fingerprint e2 = fingerprint e"
  shows "fst (refresh e fid s) =
           Inr (Refreshed fid n d (count_items fid (snd (refresh e fid s)))) \<and>
         fst (refresh e2 fid (snd (refresh e fid s))) =
           Inr (Refreshed fid 0 (n + d) (count_items fid (snd (refresh e fid s)))) \<and>
         n + d = length raws \<and>
         feed_items (snd (refresh e2 fid (snd (refresh e fid s)))) =
           feed_items (snd (refresh e fid s)) \<and>
         (\<forall>raw t u row other rest n0 d0.
            raw ''title'' = Some t \<and> raw ''url'' = Some u \<and> row \<in> set (feed_items s) \<and>
            item_fingerprint (snd row) = fingerprint e t u \<longrightarrow>
            ingest e other (raw # rest) n0 d0 s = ingest e other rest n0 (Suc d0) s)"
proof -
  let ?s' = "snd (refresh e fid s)"
  from refresh_success_facts [OF assms(1-4)]
  have first: "fst (refresh e fid s) = Inr (Refreshed fid n d (count_items fid ?s'))"
    and f2: "get_feed ?s' fid =
           Some (feed\<lparr>feed_last_fetched := Some (now e (clock s1)),
                       feed_status := ACTIVE,
                       feed_item_count := count_items fid ?s'\<rparr>)"
    and nd: "n + d = length raws"
    by blast+
  from f2 assms(5) have np: "feed_status feed2 \<noteq> PAUSED" by auto
  have items: "feed_items ?s' = feed_items s1"
    using refresh_success_eq [OF assms(1-4)] by (simp add: mark_fetched_def)
  from ingest_makes_known [OF assms(4)]
  have "\<forall>raw\<in>set raws. \<exists>t u row. raw ''title'' = Some t \<and> raw ''url'' = Some u \<and>
      row \<in> set (feed_items ?s') \<and>
      item_fingerprint (snd row) = fingerprint e2 t u"
    by (simp add: items assms(7))
  then have i2: "ingest e2 fid raws 0 0 ?s' = (Inr (0, 0 + length raws), ?s')"
    by (rule ingest_all_known)
  from refresh_success_eq [OF assms(5) np assms(6) i2]
  have second: "refresh e2 fid ?s' =
     (Inr (Refreshed fid 0 (0 + length raws) (count_items fid ?s')),
      mark_fetched fid (now e2 (clock ?s')) (count_items fid ?s')
        (?s'\<lparr>clock := Suc (clock ?s')\<rparr>))" .
  have a: "fst (refresh e2 fid ?s') = Inr (Refreshed fid 0 (n + d) (count_items fid ?s'))"
    unfolding second using nd by simp
  have b: "feed_items (snd (refresh e2 fid ?s')) = feed_items ?s'"
    unfolding second by (simp add: mark_fetched_def)
  have c: "\<forall>raw t u row other rest n0 d0.
            raw ''title'' = Some t \<and> raw ''url'' = Some u \<and> row \<in> set (feed_items s) \<and>
            item_fingerprint (snd row) = fingerprint e t u \<longrightarrow>
            ingest e other (raw # rest) n0 d0 s = ingest e other rest n0 (Suc d0) s"
    using ingest_known by blast
  from first a nd b c show ?thesis by blast
qed

text \<open>
  C3 (as stated): the duplicates of the second of two consecutive refreshes equal the new
  items of the first. The second counts every raw item, the first only those it stored:
  the second and third refresh of the demo's feed both report 0 new items and 3
  duplicates, and so do the first and second refresh of a second feed of the same
  category, whose items the first feed has stored already.
\<close>

theorem second_refresh_duplicates_counterexample:
  "fst (refresh example_env ''u'' fetched_state) = Inr (Refreshed ''u'' 0 3 3) \<and>
   fst (refresh example_env ''u'' (snd (refresh example_env ''u'' fetched_state))) =
     Inr (Refreshed ''u'' 0 3 3) \<and>
   fst (refresh example_env ''uuuuu'' mirror_state) = Inr (Refreshed ''uuuuu'' 0 3 0) \<and>
   fst (refresh example_env ''uuuuu'' (snd (refresh example_env ''uuuuu'' mirror_state))) =
     Inr (Refreshed ''uuuuu'' 0 3 0)"
  unfolding mirror_state_def fetched_state_eq
  by (simp add: model_defs norm_defs)

theorem refresh_twice_witness:
  "fst (refresh example_env ''u'' tech_state) = Inr (Refreshed ''u'' 3 0 3) \<and>
   fst (refresh example_env ''u'' (snd (refresh example_env ''u'' tech_state))) =
     Inr (Refreshed ''u'' 0 3 3)"
proof -
  let ?f = "\<lparr>feed_id = ''u'', feed_name = ''TechCrunch'',
            feed_url = ''https://techcrunch.com/feed/'', feed_category = ''tech-news'',
            feed_fetch_interval_min = 60, feed_last_fetched = None,
            feed_status = ACTIVE, feed_error_message = None, feed_item_count = 0,
            feed_created_at = ''t''\<rparr>"
  let ?f2 = "\<lparr>feed_id = ''u'', feed_name = ''TechCrunch'',
            feed_url = ''https://techcrunch.com/feed/'', feed_category = ''tech-news'',
            feed_fetch_interval_min = 60, feed_last_fetched = Some ''tttttttt'',
            feed_status = ACTIVE, feed_error_message = None, feed_item_count = 3,
            feed_created_at = ''t''\<rparr>"
  let ?raws = "simulate_fetch default_config (\<lambda>h. drop h ''pppppppppppppppppppp'') ?f"
  let ?s1 = "snd (ingest example_env ''u'' ?raws 0 0 tech_state)"
  have g: "get_feed tech_state ''u'' = Some ?f"
    by (simp add: tech_state_eq get_feed_def)
  have p: "feed_status ?f \<noteq> PAUSED" by simp
  have f: "fetcher example_env ?f = Inr ?raws" by (simp add: example_env_def)
  have "fst (ingest example_env ''u'' ?raws 0 0 tech_state) = Inr (3, 0)"
    unfolding tech_state_eq by (simp add: model_defs norm_defs)
  then have i: "ingest example_env ''u'' ?raws 0 0 tech_state = (Inr (3, 0), ?s1)"
    by (simp add: prod_eq_iff)
  have g2: "get_feed (snd (refresh example_env ''u'' tech_state)) ''u'' = Some ?f2"
    unfolding fetched_state_def [symmetric] by (simp add: fetched_state_eq get_feed_def)
  have f2: "fetcher example_env ?f2 = Inr ?raws"
    by (simp add: example_env_def simulate_fetch_def)
  have n: "count_items ''u'' (snd (refresh example_env ''u'' tech_state)) = 3"
    unfolding fetched_state_def [symmetric] by (simp add: fetched_state_eq count_items_def)
  from refresh_twice [OF g p f i g2 f2 refl] n show ?thesis by simp
qed

section \<open>Fleet refresh\<close>

lemma refresh_each_step:
  "refresh_each e (fid # fids) acc s =
     refresh_each e fids (acc @ [batch_entry e fid s]) (snd (refresh e fid s))"
  by (cases "refresh e fid s"; cases "fst (refresh e fid s)")
     (simp_all add: batch_entry_def)

lemma refresh_each_acc:
  "fst (refresh_each e fids acc s) = acc @ fst (refresh_each e fids [] s) \<and>
   snd (refresh_each e fids acc s) = snd (refresh_each e fids [] s)"
proof (induction fids arbitrary: acc s)
  case Nil
  show ?case by simp
next
  case (Cons fid fids)
  from Cons.IH [of "acc @ [batch_entry e fid s]" "snd (refresh e fid s)"]
    Cons.IH [of "[] @ [batch_entry e fid s]" "snd (refresh e fid s)"]
  show ?case
    unfolding refresh_each_step by simp
qed

lemma refresh_each_snoc:
  "refresh_each e (fids @ [fid]) [] s =
     (fst (refresh_each e fids [] s) @ [batch_entry e fid (snd (refresh_each e fids [] s))],
      snd (refresh e fid (snd (refresh_each e fids [] s))))"
proof (induction fids arbitrary: s)
  case Nil
  show ?case unfolding append_Nil refresh_each_step by simp
next
  case (Cons x fids)
  let ?s1 = "snd (refresh e x s)"
  let ?a = "[] @ [batch_entry e x s]"
  have l: "refresh_each e ((x # fids) @ [fid]) [] s = refresh_each e (fids @ [fid]) ?a ?s1"
    unfolding append_Cons refresh_each_step ..
  have r: "refresh_each e (x # fids) [] s = refresh_each e fids ?a ?s1"
    unfolding refresh_each_step ..
  from refresh_each_acc [of e "fids @ [fid]" ?a ?s1] refresh_each_acc [of e fids ?a ?s1]
    Cons.IH [of ?s1]
  show ?case unfolding l r by (simp add: prod_eq_iff)
qed

lemma refresh_each_length:
  "length (fst (refresh_each e fids [] s)) = length fids"
  by (induction fids rule: rev_induct) (simp_all add: refresh_each_snoc)

lemma refresh_each_nth:
  "k < length fids \<Longrightarrow>
   fst (refresh_each e fids [] s) ! k =
     batch_entry e (fids ! k) (snd (refresh_each e (take k fids) [] s))"
proof (induction fids rule: rev_induct)
  case Nil
  then show ?case by simp
next
  case (snoc x fids)
  show ?case
  proof (cases "k < length fids")
    case True
    with snoc.IH show ?thesis
      by (simp add: refresh_each_snoc nth_append refresh_each_length)
  next
    case False
    with snoc.prems have "k = length fids" by simp
    then show ?thesis
      by (simp add: refresh_each_snoc nth_append refresh_each_length)
  qed
qed

lemma refresh_result_feed_id:
  "fst (refresh e fid s) = Inr r \<Longrightarrow> result_feed_id r = fid"
  by (auto simp: refresh_def Let_def split: option.splits if_splits sum.splits prod.splits)

lemma batch_entry_feed_id: "result_feed_id (batch_entry e fid s) = fid"
  by (cases "fst (refresh e fid s)") (simp_all add: batch_entry_def refresh_result_feed_id)

lemma refresh_each_ids:
  "map result_feed_id (fst (refresh_each e fids [] s)) = fids"
  by (induction fids rule: rev_induct) (simp_all add: refresh_each_snoc batch_entry_feed_id)

lemma refresh_cases:
  obtains
    (missing) "get_feed s fid = None"
      "refresh e fid s = (Inl (ValueError (''Feed '' @ fid @ '' not found'')), s)"
  | (paused) feed where "get_feed s fid = Some feed" "feed_status feed = PAUSED"
      "refresh e fid s = (Inr (Skipped fid ''paused''), s)"
  | (failed) feed err s1 where "get_feed s fid = Some feed" "feed_status feed \<noteq> PAUSED"
      "refresh e fid s = (Inl err, mark_error fid err s1)" "feeds s1 = feeds s"
  | (ok) feed n d s1 where "get_feed s fid = Some feed" "feed_status feed \<noteq> PAUSED"
      "refresh e fid s =
         (Inr (Refreshed fid n d (count_items fid s1)),
          mark_fetched fid (now e (clock s1)) (count_items fid s1)
            (s1\<lparr>clock := Suc (clock s1)\<rparr>))"
      "feeds s1 = feeds s"
proof (cases "get_feed s fid")
  case None
  then show ?thesis by (intro missing) (simp_all add: refresh_def)
next
  case (Some feed)
  show ?thesis
  proof (cases "feed_status feed = PAUSED")
    case True
    with Some show ?thesis by (intro paused [of feed]) (simp_all add: refresh_def)
  next
    case np: False
    show ?thesis
    proof (cases "fetcher e feed")
      case (Inl err)
      with Some np show ?thesis
        by (intro failed [of feed err s]) (simp_all add: refresh_def)
    next
      case (Inr raws)
      obtain out s1 where i: "ingest e fid raws 0 0 s = (out, s1)" by force
      then have fs: "feeds s1 = feeds s" by (rule ingest_feeds)
      show ?thesis
      proof (cases out)
        case (Inl err)
        with i Inr Some np fs show ?thesis
          by (intro failed [of feed err s1]) (simp_all add: refresh_def)
      next
        case r: (Inr nd)
        obtain n d where nd: "nd = (n, d)" by force
        from refresh_success_eq [OF Some np Inr i [unfolded r nd]] fs Some np
        show ?thesis by (intro ok [of feed n d s1]) simp_all
      qed
    qed
  qed
qed

lemma refresh_other_feed:
  "x \<noteq> fid \<Longrightarrow> get_feed (snd (refresh e fid s)) x = get_feed s x"
proof (cases rule: refresh_cases [of s fid e])
  case (failed feed err s1)
  assume "x \<noteq> fid"
  with failed show ?thesis by (simp add: get_feed_mark_error) (simp add: get_feed_def)
next
  case (ok feed n d s1)
  assume "x \<noteq> fid"
  with ok show ?thesis by (simp add: get_feed_mark_fetched) (simp add: get_feed_def)
qed simp_all

lemma refresh_feed_ids:
  "map feed_id (feeds (snd (refresh e fid s))) = map feed_id (feeds s)"
proof (cases rule: refresh_cases [of s fid e])
  case (failed feed err s1)
  have "map feed_id (feeds (mark_error fid err s1)) = map feed_id (feeds s1)"
    by (simp add: mark_error_def comp_def)
  with failed show ?thesis by simp
next
  case (ok feed n d s1)
  have "map feed_id (feeds (mark_fetched fid t c (s1\<lparr>clock := k\<rparr>))) = map feed_id (feeds s1)"
    for t c k by (simp add: mark_fetched_def comp_def)
  with ok show ?thesis by simp
qed simp_all

lemma refresh_own_feed:
  assumes "get_feed s fid = Some f"
  shows "\<exists>f'. get_feed (snd (refresh e fid s)) fid = Some f' \<and>
     (feed_status f = PAUSED \<longrightarrow> f' = f) \<and>
     (feed_status f \<noteq> PAUSED \<longrightarrow>
        (case fst (refresh e fid s) of
           Inl err \<Rightarrow> feed_status f' = ERROR
         | Inr r \<Rightarrow> feed_status f' = ACTIVE \<and> (\<exists>n d t. r = Refreshed fid n d t)))"
proof (cases rule: refresh_cases [of s fid e])
  case missing
  with assms show ?thesis by simp
next
  case (paused feed)
  with assms show ?thesis by simp
next
  case (failed feed err s1)
  from failed(4) have "get_feed s1 fid = get_feed s fid" by (simp add: get_feed_def)
  with failed assms show ?thesis by (simp add: get_feed_mark_error)
next
  case (ok feed n d s1)
  from ok(4) have "get_feed (s1\<lparr>clock := Suc (clock s1)\<rparr>) fid = get_feed s fid"
    by (simp add: get_feed_def)
  with ok assms show ?thesis by (simp add: get_feed_mark_fetched)
qed

lemma refresh_each_Cons:
  "fst (refresh_each e (fid # fids) [] s) =
     batch_entry e fid s # fst (refresh_each e fids [] (snd (refresh e fid s)))"
  "snd (refresh_each e (fid # fids) [] s) =
     snd (refresh_each e fids [] (snd (refresh e fid s)))"
  using refresh_each_acc [of e fids "[] @ [batch_entry e fid s]" "snd (refresh e fid s)"]
  unfolding refresh_each_step by simp_all

lemma refresh_each_other_feed:
  "x \<notin> set fids \<Longrightarrow> get_feed (snd (refresh_each e fids [] s)) x = get_feed s x"
proof (induction fids arbitrary: s)
  case Nil
  show ?case by simp
next
  case (Cons fid fids)
  then show ?case
    unfolding refresh_each_Cons by (simp add: refresh_other_feed)
qed

lemma refresh_each_feed_ids:
  "map feed_id (feeds (snd (refresh_each e fids [] s))) = map feed_id (feeds s)"
proof (induction fids arbitrary: s)
  case Nil
  show ?case by simp
next
  case (Cons fid fids)
  show ?case
    unfolding refresh_each_Cons by (simp add: Cons.IH refresh_feed_ids)
qed

lemma batch_entry_not_paused:
  assumes "get_feed s fid = Some f" and "feed_status f \<noteq> PAUSED"
  shows "\<exists>f'. get_feed (snd (refresh e fid s)) fid = Some f' \<and>
     ((feed_status f' = ACTIVE \<and> (\<exists>n d t. batch_entry e fid s = Refreshed fid n d t)) \<or>
      (feed_status f' = ERROR \<and> (\<exists>msg. batch_entry e fid s = Failed fid msg)))"
  using refresh_own_feed [OF assms(1), of e] assms(2)
  by (cases "fst (refresh e fid s)") (auto simp: batch_entry_def)

lemma refresh_each_own_feed:
  assumes "distinct fids" and "x \<in> set fids"
    and "get_feed s x = Some f" and "feed_status f \<noteq> PAUSED"
  shows "\<exists>f'. get_feed (snd (refresh_each e fids [] s)) x = Some f' \<and>
     (feed_status f' = ACTIVE \<or>
      (feed_status f' = ERROR \<and> (\<exists>msg. Failed x msg \<in> set (fst (refresh_each e fids [] s)))))"
  using assms
proof (induction fids arbitrary: s f)
  case Nil
  then show ?case by simp
next
  case (Cons fid fids)
  show ?case
  proof (cases "x = fid")
    case True
    with Cons.prems have "x \<notin> set fids" by simp
    then have same: "get_feed (snd (refresh_each e fids [] (snd (refresh e fid s)))) x =
        get_feed (snd (refresh e fid s)) x"
      by (rule refresh_each_other_feed)
    from batch_entry_not_paused [OF Cons.prems(3,4), of e] True same
    show ?thesis unfolding refresh_each_Cons by auto
  next
    case False
    with Cons.prems have x: "x \<in> set fids" "distinct fids" by simp_all
    from False Cons.prems(3) have "get_feed (snd (refresh e fid s)) x = Some f"
      by (simp add: refresh_other_feed)
    from Cons.IH [OF x(2,1) this Cons.prems(4)]
    show ?thesis unfolding refresh_each_Cons by auto
  qed
qed

lemma refresh_each_no_skip:
  assumes "distinct fids"
    and "\<forall>x\<in>set fids. \<exists>f. get_feed s x = Some f \<and> feed_status f \<noteq> PAUSED"
  shows "\<forall>r\<in>set (fst (refresh_each e fids [] s)). \<forall>a b. r \<noteq> Skipped a b"
  using assms
proof (induction fids arbitrary: s)
  case Nil
  show ?case by simp
next
  case (Cons fid fids)
  from Cons.prems(2) obtain f where f: "get_feed s fid = Some f" "feed_status f \<noteq> PAUSED"
    by auto
  from batch_entry_not_paused [OF f, of e]
  have hd: "\<forall>a b. batch_entry e fid s \<noteq> Skipped a b" by auto
  have "\<forall>x\<in>set fids. \<exists>f. get_feed (snd (refresh e fid s)) x = Some f \<and> feed_status f \<noteq> PAUSED"
  proof
    fix x assume "x \<in> set fids"
    with Cons.prems have "x \<noteq> fid" and "\<exists>f. get_feed s x = Some f \<and> feed_status f \<noteq> PAUSED"
      by auto
    then show "\<exists>f. get_feed (snd (refresh e fid s)) x = Some f \<and> feed_status f \<noteq> PAUSED"
      by (simp add: refresh_other_feed)
  qed
  with Cons.IH [of "snd (refresh e fid s)"] Cons.prems(1) hd
  show ?case unfolding refresh_each_Cons by simp
qed

lemma find_feed_distinct:
  "distinct (map feed_id fs) \<Longrightarrow> f \<in> set fs \<Longrightarrow>
   find (\<lambda>g. feed_id g = feed_id f) fs = Some f"
  by (induction fs) (auto simp: image_iff)

lemma active_ids_distinct:
  "distinct (map feed_id (feeds s)) \<Longrightarrow> distinct (active_ids s)"
  by (simp add: active_ids_def distinct_map_filter)

lemma active_ids_iff:
  assumes "distinct (map feed_id (feeds s))"
  shows "x \<in> set (active_ids s) \<longleftrightarrow>
         (\<exists>f. get_feed s x = Some f \<and> feed_status f = ACTIVE)"
proof
  assume "x \<in> set (active_ids s)"
  then obtain f where f: "f \<in> set (feeds s)" "feed_status f = ACTIVE" "feed_id f = x"
    by (auto simp: active_ids_def)
  from find_feed_distinct [OF assms f(1)] f(2,3)
  show "\<exists>f. get_feed s x = Some f \<and> feed_status f = ACTIVE"
    by (auto simp: get_feed_def)
next
  assume "\<exists>f. get_feed s x = Some f \<and> feed_status f = ACTIVE"
  then obtain f where "find (\<lambda>g. feed_id g = x) (feeds s) = Some f" "feed_status f = ACTIVE"
    by (auto simp: get_feed_def)
  then have "f \<in> set (feeds s)" "feed_id f = x" "feed_status f = ACTIVE"
    by (auto simp: find_Some_iff)
  then show "x \<in> set (active_ids s)"
    by (auto simp: active_ids_def)
qed

lemma refresh_each_fold:
  "snd (refresh_each e fids [] s) = fold (\<lambda>fid st. snd (refresh e fid st)) fids s"
proof (induction fids arbitrary: s)
  case Nil
  show ?case by simp
next
  case (Cons fid fids)
  show ?case unfolding refresh_each_Cons by (simp add: Cons.IH)
qed

lemma nth_not_in_take:
  assumes "distinct xs" and "k < length xs"
  shows "xs ! k \<notin> set (take k xs)"
proof
  assume "xs ! k \<in> set (take k xs)"
  then obtain i where i: "i < length (take k xs)" "take k xs ! i = xs ! k"
    by (auto simp: in_set_conv_nth)
  with assms(2) have "i < k" "xs ! i = xs ! k" by simp_all
  with assms show False by (simp add: nth_eq_iff_index_eq)
qed

lemma refresh_all_round_feed:
  assumes d: "distinct (map feed_id (feeds s))" and k: "k < length (active_ids s)"
  shows "\<exists>f. get_feed s (active_ids s ! k) = Some f \<and> feed_status f = ACTIVE \<and>
     get_feed (fold (\<lambda>fid st. snd (refresh e fid st)) (take k (active_ids s)) s)
       (active_ids s ! k) = Some f"
proof -
  from k have "active_ids s ! k \<in> set (active_ids s)" by simp
  with active_ids_iff [OF d] obtain f where
    f: "get_feed s (active_ids s ! k) = Some f" "feed_status f = ACTIVE" by blast
  from nth_not_in_take [OF active_ids_distinct [OF d] k]
  have "get_feed (snd (refresh_each e (take k (active_ids s)) [] s)) (active_ids s ! k) =
      get_feed s (active_ids s ! k)"
    by (rule refresh_each_other_feed)
  with f show ?thesis unfolding refresh_each_fold by simp
qed

lemma refresh_all_nth:
  assumes "k < length (active_ids s)"
  shows "fst (refresh_all e s) ! k =
        (case fst (refresh e (active_ids s ! k)
                     (fold (\<lambda>fid st. snd (refresh e fid st)) (take k (active_ids s)) s)) of
           Inr r \<Rightarrow> r
         | Inl err \<Rightarrow> Failed (active_ids s ! k) (py_str err))"
  using assms unfolding refresh_all_def
  by (simp add: refresh_each_nth batch_entry_def refresh_each_fold)

lemma refresh_all_fetcher_raises:
  assumes d: "distinct (map feed_id (feeds s))" and f: "\<forall>feed. fetcher e feed = Inl ferr"
  shows "fst (refresh_all e s) = map (\<lambda>fid. Failed fid (py_str ferr)) (active_ids s)"
proof (rule nth_equalityI)
  show "length (fst (refresh_all e s)) =
      length (map (\<lambda>fid. Failed fid (py_str ferr)) (active_ids s))"
    unfolding refresh_all_def by (simp add: refresh_each_length)
next
  fix k assume "k < length (fst (refresh_all e s))"
  then have k: "k < length (active_ids s)"
    unfolding refresh_all_def by (simp add: refresh_each_length)
  let ?st = "fold (\<lambda>fid st. snd (refresh e fid st)) (take k (active_ids s)) s"
  from refresh_all_round_feed [OF d k, of e] obtain feed where
    g: "get_feed ?st (active_ids s ! k) = Some feed" and a: "feed_status feed = ACTIVE"
    by blast
  from a have np: "feed_status feed \<noteq> PAUSED" by simp
  from f have "fetcher e feed = Inl ferr" by simp
  from refresh_fetcher_raises [OF g np this]
  have "fst (refresh e (active_ids s ! k) ?st) = Inl ferr" by simp
  with refresh_all_nth [OF k, of e] k
  show "fst (refresh_all e s) ! k =
      map (\<lambda>fid. Failed fid (py_str ferr)) (active_ids s) ! k"
    by simp
qed

text \<open>
  C6: \<^verbatim>\<open>refresh_all\<close> returns a list and raises nothing, whatever the refreshes do: the
  list has one entry for each feed whose status was active when the call began, in
  their order, and none for a paused or failed feed. The call does to the database
  what calling \<^verbatim>\<open>refresh\<close> for these feeds one after the other does, and nothing else;
  the entry of a feed is what \<^verbatim>\<open>refresh\<close> returned for it in the state that the
  refreshes of the feeds before it had left, or, when that call raised, the feed id
  with the text of the error, and the loop goes on to the next feed. A feed that was
  not active is left as it was. Under the primary key of \<^verbatim>\<open>feeds\<close> each of these
  feeds is still active, and as it was, when its turn comes, so that no entry is a
  skip; and when the fetcher raises for every feed the list is the list of these
  errors, one for each active feed.
\<close>

theorem refresh_all_entries:
  "map result_feed_id (fst (refresh_all e s)) =
     map feed_id (filter (\<lambda>f. feed_status f = ACTIVE) (feeds s)) \<and>
   snd (refresh_all e s) = fold (\<lambda>fid st. snd (refresh e fid st)) (active_ids s) s \<and>
   (\<forall>k<length (active_ids s).
      fst (refresh_all e s) ! k =
        (case fst (refresh e (active_ids s ! k)
                     (fold (\<lambda>fid st. snd (refresh e fid st)) (take k (active_ids s)) s)) of
           Inr r \<Rightarrow> r
         | Inl err \<Rightarrow> Failed (active_ids s ! k) (py_str err))) \<and>
   (\<forall>x. x \<notin> set (active_ids s) \<longrightarrow> get_feed (snd (refresh_all e s)) x = get_feed s x) \<and>
   (distinct (map feed_id (feeds s)) \<longrightarrow>
      (\<forall>r\<in>set (fst (refresh_all e s)). \<forall>a b. r \<noteq> Skipped a b) \<and>
      (\<forall>k<length (active_ids s).
         \<exists>f. get_feed s (active_ids s ! k) = Some f \<and> feed_status f = ACTIVE \<and>
             get_feed (fold (\<lambda>fid st. snd (refresh e fid st)) (take k (active_ids s)) s)
               (active_ids s ! k) = Some f) \<and>
      ((\<forall>feed. fetcher e feed = Inl ferr) \<longrightarrow>
         fst (refresh_all e s) = map (\<lambda>fid. Failed fid (py_str ferr)) (active_ids s)))"
proof (intro conjI allI impI)
  show "map result_feed_id (fst (refresh_all e s)) =
     map feed_id (filter (\<lambda>f. feed_status f = ACTIVE) (feeds s))"
    unfolding refresh_all_def refresh_each_ids by (simp add: active_ids_def)
next
  show "snd (refresh_all e s) = fold (\<lambda>fid st. snd (refresh e fid st)) (active_ids s) s"
    unfolding refresh_all_def by (rule refresh_each_fold)
next
  fix k assume "k < length (active_ids s)"
  then show "fst (refresh_all e s) ! k =
        (case fst (refresh e (active_ids s ! k)
                     (fold (\<lambda>fid st. snd (refresh e fid st)) (take k (active_ids s)) s)) of
           Inr r \<Rightarrow> r
         | Inl err \<Rightarrow> Failed (active_ids s ! k) (py_str err))"
    by (rule refresh_all_nth)
next
  fix x assume "x \<notin> set (active_ids s)"
  then show "get_feed (snd (refresh_all e s)) x = get_feed s x"
    unfolding refresh_all_def by (rule refresh_each_other_feed)
next
  assume d: "distinct (map feed_id (feeds s))"
  have "\<forall>x\<in>set (active_ids s). \<exists>f. get_feed s x = Some f \<and> feed_status f \<noteq> PAUSED"
    using active_ids_iff [OF d] by auto
  with active_ids_distinct [OF d]
  show "\<forall>r\<in>set (fst (refresh_all e s)). \<forall>a b. r \<noteq> Skipped a b"
    unfolding refresh_all_def by (rule refresh_each_no_skip)
next
  fix k assume "distinct (map feed_id (feeds s))" and "k < length (active_ids s)"
  then show "\<exists>f. get_feed s (active_ids s ! k) = Some f \<and> feed_status f = ACTIVE \<and>
             get_feed (fold (\<lambda>fid st. snd (refresh e fid st)) (take k (active_ids s)) s)
               (active_ids s ! k) = Some f"
    by (rule refresh_all_round_feed)
next
  assume "distinct (map feed_id (feeds s))" and "\<forall>feed. fetcher e feed = Inl ferr"
  then show "fst (refresh_all e s) = map (\<lambda>fid. Failed fid (py_str ferr)) (active_ids s)"
    by (rule refresh_all_fetcher_raises)
qed

lemma fleet_state_eq:
  "fleet_state =
     \<lparr>feeds =
        [\<lparr>feed_id = ''u'', feed_name = ''NASA News'',
           feed_url = ''https://www.nasa.gov/rss/dyn/breaking_news.rss'',
           feed_category = ''science'', feed_fetch_interval_min = 60,
           feed_last_fetched = None, feed_status = ACTIVE, feed_error_message = None,
           feed_item_count = 0, feed_created_at = ''t''\<rparr>,
         \<lparr>feed_id = ''uu'', feed_name = ''Broken'',
           feed_url = ''https://broken.example/feed'',
           feed_category = ''general'', feed_fetch_interval_min = 60,
           feed_last_fetched = None, feed_status = ACTIVE, feed_error_message = None,
           feed_item_count = 0, feed_created_at = ''tt''\<rparr>,
         \<lparr>feed_id = ''uuu'', feed_name = ''Paused'',
           feed_url = ''https://paused.example/feed'',
           feed_category = ''general'', feed_fetch_interval_min = 60,
           feed_last_fetched = None, feed_status = PAUSED, feed_error_message = None,
           feed_item_count = 0, feed_created_at = ''ttt''\<rparr>],
      feed_items = [], feed_items_fts = [], clock = 3, entropy = 3\<rparr>"
  by (simp add: fleet_state_def model_defs pause_feed_def)

theorem refresh_all_entries_witness:
  "fst (refresh_all flaky_env fleet_state) =
     [Refreshed ''u'' 2 0 2, Failed ''uu'' ''timed out''] \<and>
   map feed_status (feeds (snd (refresh_all flaky_env fleet_state))) =
     [ACTIVE, ERROR, PAUSED] \<and>
   map (\<lambda>r. item_feed_id (snd r)) (feed_items (snd (refresh_all flaky_env fleet_state))) =
     [''u'', ''u''] \<and>
   get_feed (snd (refresh_all flaky_env fleet_state)) ''uuu'' = get_feed fleet_state ''uuu'' \<and>
   fst (refresh_all failing_env fleet_state) =
     [Failed ''u'' ''timed out'', Failed ''uu'' ''timed out'']"
proof -
  let ?step = "\<lambda>fid st. snd (refresh flaky_env fid st)"
  have d: "distinct (map feed_id (feeds fleet_state))"
    by (simp add: fleet_state_eq)
  have ids: "active_ids fleet_state = [''u'', ''uu'']"
    by (simp add: fleet_state_eq active_ids_def)
  note t = refresh_all_entries [of flaky_env fleet_state]
  from t [THEN conjunct1] have a: "map result_feed_id (fst (refresh_all flaky_env fleet_state)) =
      map feed_id (filter (\<lambda>f. feed_status f = ACTIVE) (feeds fleet_state))" .
  from t [THEN conjunct2, THEN conjunct1] have st: "snd (refresh_all flaky_env fleet_state) =
      fold ?step (active_ids fleet_state) fleet_state" .
  from t [THEN conjunct2, THEN conjunct2, THEN conjunct1] have nth: "\<forall>k<length (active_ids fleet_state).
      fst (refresh_all flaky_env fleet_state) ! k =
        (case fst (refresh flaky_env (active_ids fleet_state ! k)
                     (fold ?step (take k (active_ids fleet_state)) fleet_state)) of
           Inr r \<Rightarrow> r
         | Inl err \<Rightarrow> Failed (active_ids fleet_state ! k) (py_str err))" .
  from t [THEN conjunct2, THEN conjunct2, THEN conjunct2, THEN conjunct1] have other: "\<forall>x. x \<notin> set (active_ids fleet_state) \<longrightarrow>
      get_feed (snd (refresh_all flaky_env fleet_state)) x = get_feed fleet_state x" .
  from t [THEN conjunct2, THEN conjunct2, THEN conjunct2, THEN conjunct2, THEN mp, OF d,
      THEN conjunct1] have ns: "\<forall>r\<in>set (fst (refresh_all flaky_env fleet_state)). \<forall>a b. r \<noteq> Skipped a b" .
  from arg_cong [OF a, of length]
  have len: "length (fst (refresh_all flaky_env fleet_state)) = 2"
    by (simp add: ids [unfolded active_ids_def])
  have r0: "fst (refresh flaky_env ''u'' fleet_state) = Inr (Refreshed ''u'' 2 0 2)"
    unfolding fleet_state_eq by (simp add: model_defs norm_defs)
  have r1: "fst (refresh flaky_env ''uu'' (snd (refresh flaky_env ''u'' fleet_state))) =
      Inl (FetchError ''timed out'')"
    unfolding fleet_state_eq by (simp add: model_defs norm_defs)
  from nth [THEN spec, of 0] r0 have e0:
    "fst (refresh_all flaky_env fleet_state) ! 0 = Refreshed ''u'' 2 0 2"
    by (simp add: ids)
  from nth [THEN spec, of 1] r1 have e1:
    "fst (refresh_all flaky_env fleet_state) ! 1 = Failed ''uu'' ''timed out''"
    by (simp add: ids)
  from len e0 e1 have r: "fst (refresh_all flaky_env fleet_state) =
     [Refreshed ''u'' 2 0 2, Failed ''uu'' ''timed out'']"
    by (cases "fst (refresh_all flaky_env fleet_state)";
        cases "tl (fst (refresh_all flaky_env fleet_state))") auto
  have s: "map feed_status (feeds (fold ?step [''u'', ''uu''] fleet_state)) =
     [ACTIVE, ERROR, PAUSED]"
    unfolding fleet_state_eq by (simp add: model_defs norm_defs)
  have i: "map (\<lambda>r. item_feed_id (snd r)) (feed_items (fold ?step [''u'', ''uu''] fleet_state)) =
     [''u'', ''u'']"
    unfolding fleet_state_eq by (simp add: model_defs norm_defs)
  from other [THEN spec, of "''uuu''"]
  have o: "get_feed (snd (refresh_all flaky_env fleet_state)) ''uuu'' =
      get_feed fleet_state ''uuu''"
    by (simp add: ids)
  have ff: "\<forall>feed. fetcher failing_env feed = Inl (FetchError ''timed out'')"
    by (simp add: failing_env_def)
  from refresh_all_entries [of failing_env fleet_state "FetchError ''timed out''",
      THEN conjunct2, THEN conjunct2, THEN conjunct2, THEN conjunct2, THEN mp, OF d,
      THEN conjunct2, THEN conjunct2, THEN mp, OF ff]
  have "fst (refresh_all failing_env fleet_state) =
      map (\<lambda>fid. Failed fid (py_str (FetchError ''timed out''))) (active_ids fleet_state)" .
  then have f: "fst (refresh_all failing_env fleet_state) =
     [Failed ''u'' ''timed out'', Failed ''uu'' ''timed out'']"
    by (simp add: ids)
  from r s i o f show ?thesis unfolding st ids by simp
qed

section \<open>Status transitions\<close>

lemma delete_duplicates_feeds: "feeds (snd (delete_duplicates fp keep_id s)) = feeds s"
  by (simp add: delete_duplicates_def Let_def)

lemma sweep_feeds: "feeds (snd (sweep dups removed s)) = feeds s"
proof (induction dups arbitrary: removed s)
  case Nil
  show ?case by simp
next
  case (Cons g dups)
  obtain fp cnt keep_id where g: "g = (fp, cnt, keep_id)" by (cases g) auto
  obtain rc s1 where d: "delete_duplicates fp keep_id s = (rc, s1)" by force
  with delete_duplicates_feeds [of fp keep_id s] have "feeds s1 = feeds s" by simp
  with Cons.IH [of "removed + rc" s1] g d show ?case by simp
qed

lemma deduplicate_feeds: "feeds (snd (deduplicate s)) = feeds s"
  by (simp add: deduplicate_def sweep_feeds)

lemma add_feed_feeds:
  "\<exists>more. feeds (snd (add_feed e name url category interval s)) = feeds s @ more \<and>
     (\<forall>f\<in>set more. feed_id f \<notin> feed_id ` set (feeds s))"
  by (auto simp: add_feed_def Let_def list_ex_iff)

lemma find_append_Some:
  "find P xs = Some x \<Longrightarrow> find P (xs @ ys) = Some x"
  by (induction xs) (auto split: if_splits)

lemma step_feed_ids_distinct:
  assumes "distinct (map feed_id (feeds s))"
  shows "distinct (map feed_id (feeds (step e op s)))"
proof (cases op)
  case (AddFeed name url category interval)
  from add_feed_feeds [of e name url category interval s] obtain more where
    m: "feeds (snd (add_feed e name url category interval s)) = feeds s @ more"
      "\<forall>f\<in>set more. feed_id f \<notin> feed_id ` set (feeds s)"
    by blast
  have "length more \<le> 1" using m(1) by (auto simp: add_feed_def Let_def split: if_splits)
  then have "distinct (map feed_id more)" by (cases more) auto
  moreover have "feed_id ` set (feeds s) \<inter> feed_id ` set more = {}"
  proof (rule ccontr)
    assume "feed_id ` set (feeds s) \<inter> feed_id ` set more \<noteq> {}"
    then obtain a b where "a \<in> set (feeds s)" "b \<in> set more" "feed_id a = feed_id b"
      by (auto simp: image_iff)
    with m(2) show False by (metis imageI)
  qed
  ultimately show ?thesis using m(1) assms AddFeed by simp
next
  case (Refresh fid)
  with assms show ?thesis by (simp add: refresh_feed_ids)
next
  case RefreshAll
  with assms show ?thesis by (simp add: refresh_all_def refresh_each_feed_ids)
next
  case (PauseFeed fid)
  have "map feed_id (feeds (snd (pause_feed fid s))) = map feed_id (feeds s)"
    by (simp add: pause_feed_def comp_def)
  with assms PauseFeed show ?thesis by simp
next
  case (ResumeFeed fid)
  have "map feed_id (feeds (snd (resume_feed fid s))) = map feed_id (feeds s)"
    by (simp add: resume_feed_def comp_def)
  with assms ResumeFeed show ?thesis by simp
next
  case Deduplicate
  with assms show ?thesis by (simp add: deduplicate_feeds)
qed (use assms in \<open>simp_all add: mark_read_def mark_unread_def bookmark_def unbookmark_def\<close>)

lemma run_feed_ids_distinct:
  "distinct (map feed_id (feeds s)) \<Longrightarrow> distinct (map feed_id (feeds (run ops s)))"
proof (induction ops arbitrary: s)
  case Nil
  then show ?case by simp
next
  case (Cons a ops)
  obtain e op where "a = (e, op)" by (cases a) auto
  with Cons show ?case by (simp add: step_feed_ids_distinct)
qed

lemma get_feed_pause:
  "get_feed (snd (pause_feed fid s)) x =
     (if x = fid then map_option (\<lambda>f. f\<lparr>feed_status := PAUSED\<rparr>) (get_feed s x)
      else get_feed s x)"
  unfolding get_feed_def pause_feed_def
  using find_feed_map [of "\<lambda>f. f\<lparr>feed_status := PAUSED\<rparr>" x fid "feeds s"]
  by simp

lemma get_feed_resume:
  "get_feed (snd (resume_feed fid s)) x =
     (if x = fid then map_option (\<lambda>f. f\<lparr>feed_status := ACTIVE\<rparr>) (get_feed s x)
      else get_feed s x)"
  unfolding get_feed_def resume_feed_def
  using find_feed_map [of "\<lambda>f. f\<lparr>feed_status := ACTIVE\<rparr>" x fid "feeds s"]
  by simp

lemma status_step:
  assumes d: "distinct (map feed_id (feeds s))" and g: "get_feed s fid = Some f"
  shows "\<exists>f'. get_feed (step e op s) fid = Some f' \<and>
     (feed_status f' \<noteq> feed_status f \<longrightarrow>
        permitted e op s fid (feed_status f) (feed_status f'))"
proof (cases op)
  case (AddFeed name url category interval)
  from add_feed_feeds [of e name url category interval s] obtain more where
    "feeds (snd (add_feed e name url category interval s)) = feeds s @ more" by blast
  with g have "get_feed (snd (add_feed e name url category interval s)) fid = Some f"
    by (simp add: get_feed_def find_append_Some)
  with AddFeed show ?thesis by simp
next
  case (Refresh x)
  show ?thesis
  proof (cases "x = fid")
    case True
    from refresh_own_feed [OF g, of e] obtain f' where
      f': "get_feed (snd (refresh e fid s)) fid = Some f'"
        "feed_status f = PAUSED \<longrightarrow> f' = f"
        "feed_status f \<noteq> PAUSED \<longrightarrow>
          (case fst (refresh e fid s) of
             Inl err \<Rightarrow> feed_status f' = ERROR
           | Inr r \<Rightarrow> feed_status f' = ACTIVE \<and> (\<exists>n d t. r = Refreshed fid n d t))"
      by blast
    have "permitted e op s fid (feed_status f) (feed_status f')"
      if ne: "feed_status f' \<noteq> feed_status f"
    proof -
      from ne f'(2) have np: "feed_status f \<noteq> PAUSED" by auto
      show ?thesis
      proof (cases "fst (refresh e fid s)")
        case (Inl err)
        with f'(3) np have "feed_status f' = ERROR" by simp
        moreover with ne np have "feed_status f = ACTIVE" by (cases "feed_status f") simp_all
        ultimately show ?thesis using Inl Refresh True by (simp add: permitted_def)
      next
        case (Inr r)
        with f'(3) np have "feed_status f' = ACTIVE" by simp
        moreover with ne np have "feed_status f = ERROR" by (cases "feed_status f") simp_all
        ultimately show ?thesis using Inr Refresh True by (simp add: permitted_def)
      qed
    qed
    with f'(1) Refresh True show ?thesis by simp
  next
    case False
    with g Refresh show ?thesis by (simp add: refresh_other_feed)
  qed
next
  case RefreshAll
  show ?thesis
  proof (cases "fid \<in> set (active_ids s)")
    case True
    with active_ids_iff [OF d, of fid] g have act: "feed_status f = ACTIVE" by auto
    then have np: "feed_status f \<noteq> PAUSED" by simp
    from refresh_each_own_feed [OF active_ids_distinct [OF d] True g np, of e]
    obtain f' where f': "get_feed (snd (refresh_all e s)) fid = Some f'"
      "feed_status f' = ACTIVE \<or>
       (feed_status f' = ERROR \<and> (\<exists>msg. Failed fid msg \<in> set (fst (refresh_all e s))))"
      unfolding refresh_all_def by blast
    from f'(2) act have "feed_status f' \<noteq> feed_status f \<longrightarrow>
        permitted e op s fid (feed_status f) (feed_status f')"
      using RefreshAll by (auto simp: permitted_def)
    with f'(1) RefreshAll show ?thesis by simp
  next
    case False
    with g RefreshAll show ?thesis
      by (simp add: refresh_all_def refresh_each_other_feed)
  qed
next
  case (PauseFeed x)
  with g show ?thesis by (cases "x = fid") (simp_all add: get_feed_pause permitted_def)
next
  case (ResumeFeed x)
  with g show ?thesis by (cases "x = fid") (simp_all add: get_feed_resume permitted_def)
next
  case Deduplicate
  with g deduplicate_feeds [of s] show ?thesis by (simp add: get_feed_def)
qed (use g in \<open>simp_all add: get_feed_def mark_read_def mark_unread_def bookmark_def
      unbookmark_def\<close>)

text \<open>
  C2 (amended): in every state reached from the empty database by a sequence of
  operations, each in an environment of its own, an operation keeps every feed, and
  changes the status of a feed only in these ways: \<^verbatim>\<open>pause_feed\<close> of that feed sets
  paused, from active or from error; \<^verbatim>\<open>resume_feed\<close> of that feed sets active, from
  paused or from error; a \<^verbatim>\<open>refresh\<close> of that feed which returns takes error to active;
  a \<^verbatim>\<open>refresh\<close> of that feed which raises, called alone or by \<^verbatim>\<open>refresh_all\<close>,
  takes active to error. So nothing but a failing refresh leads into error, while pause
  and resume do lead out of it.
\<close>

theorem status_transitions:
  assumes "get_feed (run ops empty_state) fid = Some f"
  shows "\<exists>f'. get_feed (step e op (run ops empty_state)) fid = Some f' \<and>
     (feed_status f' \<noteq> feed_status f \<longrightarrow>
        permitted e op (run ops empty_state) fid (feed_status f) (feed_status f'))"
proof -
  have "distinct (map feed_id (feeds empty_state))" by (simp add: empty_state_def)
  then have "distinct (map feed_id (feeds (run ops empty_state)))"
    by (rule run_feed_ids_distinct)
  from status_step [OF this assms] show ?thesis .
qed

text \<open>
  C2 (as stated): no pause or resume call moves a feed out of the error status. Both
  updates are unconditional: after a refresh that failed, \<^verbatim>\<open>pause_feed\<close> takes the
  feed from error to paused and \<^verbatim>\<open>resume_feed\<close> takes it from error to active.
\<close>

theorem pause_resume_leave_error_counterexample:
  "map feed_status
     (feeds (run [(example_env, AddFeed ''TechCrunch'' ''https://techcrunch.com/feed/''
                     ''tech-news'' 60),
                  (failing_env, Refresh ''u'')] empty_state)) = [ERROR] \<and>
   map feed_status
     (feeds (run [(example_env, AddFeed ''TechCrunch'' ''https://techcrunch.com/feed/''
                     ''tech-news'' 60),
                  (failing_env, Refresh ''u''),
                  (example_env, PauseFeed ''u'')] empty_state)) = [PAUSED] \<and>
   map feed_status
     (feeds (run [(example_env, AddFeed ''TechCrunch'' ''https://techcrunch.com/feed/''
                     ''tech-news'' 60),
                  (failing_env, Refresh ''u''),
                  (example_env, ResumeFeed ''u'')] empty_state)) = [ACTIVE]"
proof -
  have "step failing_env (Refresh ''u'')
          (step example_env (AddFeed ''TechCrunch'' ''https://techcrunch.com/feed/''
             ''tech-news'' 60) empty_state) = failed_state"
    by (simp add: failed_state_def tech_state_def)
  then show ?thesis
    by (simp add: failed_state_eq pause_feed_def resume_feed_def)
qed

theorem status_transitions_witness:
  "\<exists>f'. get_feed
          (step example_env (Refresh ''u'')
             (run [(example_env, AddFeed ''TechCrunch'' ''https://techcrunch.com/feed/''
                      ''tech-news'' 60),
                   (failing_env, Refresh ''u'')] empty_state)) ''u'' = Some f' \<and>
        feed_status f' = ACTIVE \<and>
        permitted example_env (Refresh ''u'')
          (run [(example_env, AddFeed ''TechCrunch'' ''https://techcrunch.com/feed/''
                   ''tech-news'' 60),
                (failing_env, Refresh ''u'')] empty_state) ''u'' ERROR ACTIVE"
proof -
  let ?ops = "[(example_env, AddFeed ''TechCrunch'' ''https://techcrunch.com/feed/''
                   ''tech-news'' 60),
               (failing_env, Refresh ''u'')]"
  let ?f = "\<lparr>feed_id = ''u'', feed_name = ''TechCrunch'',
              feed_url = ''https://techcrunch.com/feed/'', feed_category = ''tech-news'',
              feed_fetch_interval_min = 60, feed_last_fetched = None,
              feed_status = ERROR, feed_error_message = Some ''timed out'',
              feed_item_count = 0, feed_created_at = ''t''\<rparr>"
  have r: "run ?ops empty_state = failed_state"
    by (simp add: failed_state_def tech_state_def)
  have g: "get_feed (run ?ops empty_state) ''u'' = Some ?f"
    unfolding r by (simp add: failed_state_eq get_feed_def)
  have st: "map feed_status (feeds (step example_env (Refresh ''u'') (run ?ops empty_state))) =
      [ACTIVE]"
    unfolding r step.simps failed_state_eq by (simp add: model_defs norm_defs)
  from status_transitions [OF g, of example_env "Refresh ''u''"] obtain f' where
    f': "get_feed (step example_env (Refresh ''u'') (run ?ops empty_state)) ''u'' = Some f'"
      "feed_status f' \<noteq> feed_status ?f \<longrightarrow>
        permitted example_env (Refresh ''u'') (run ?ops empty_state) ''u''
          (feed_status ?f) (feed_status f')"
    by blast
  from f'(1) have "f' \<in> set (feeds (step example_env (Refresh ''u'') (run ?ops empty_state)))"
    by (auto simp: get_feed_def find_Some_iff)
  then have "feed_status f' \<in> set (map feed_status
      (feeds (step example_env (Refresh ''u'') (run ?ops empty_state))))"
    by simp
  then have a: "feed_status f' = ACTIVE" unfolding st by simp
  with f' show ?thesis by auto
qed

section \<open>The deduplication sweeper\<close>

lemma delete_duplicates_items:
  "feed_items (snd (delete_duplicates fp keep_id s)) =
     filter (\<lambda>r. \<not> is_loser fp keep_id r) (feed_items s)"
  "fst (delete_duplicates fp keep_id s) + length (feed_items (snd (delete_duplicates fp keep_id s)))
     = length (feed_items s)"
  by (simp_all add: delete_duplicates_def Let_def sum_length_filter_compl)

lemma sweep_items:
  "feed_items (snd (sweep dups removed s)) =
     filter (\<lambda>r. \<forall>g\<in>set dups. \<not> is_loser (fst g) (snd (snd g)) r) (feed_items s) \<and>
   fst (sweep dups removed s) + length (feed_items (snd (sweep dups removed s))) =
     removed + length (feed_items s)"
proof (induction dups arbitrary: removed s)
  case Nil
  show ?case by simp
next
  case (Cons g dups)
  obtain fp cnt keep_id where g: "g = (fp, cnt, keep_id)" by (cases g) auto
  define s1 where "s1 = snd (delete_duplicates fp keep_id s)"
  define rc where "rc = fst (delete_duplicates fp keep_id s)"
  have sw: "sweep (g # dups) removed s = sweep dups (removed + rc) s1"
    unfolding g s1_def rc_def by (simp add: case_prod_beta)
  have i1: "feed_items s1 = filter (\<lambda>r. \<not> is_loser fp keep_id r) (feed_items s)"
    and c1: "rc + length (feed_items s1) = length (feed_items s)"
    unfolding s1_def rc_def by (rule delete_duplicates_items)+
  from Cons.IH [of "removed + rc" s1]
  have i2: "feed_items (snd (sweep dups (removed + rc) s1)) =
      filter (\<lambda>r. \<forall>g\<in>set dups. \<not> is_loser (fst g) (snd (snd g)) r) (feed_items s1)"
    and c2: "fst (sweep dups (removed + rc) s1) +
        length (feed_items (snd (sweep dups (removed + rc) s1))) =
      removed + rc + length (feed_items s1)"
    by blast+
  have "feed_items (snd (sweep (g # dups) removed s)) =
      filter (\<lambda>r. \<forall>g\<in>set (g # dups). \<not> is_loser (fst g) (snd (snd g)) r) (feed_items s)"
    unfolding sw i2 i1 by (auto simp: g intro: filter_cong)
  moreover have "fst (sweep (g # dups) removed s) +
      length (feed_items (snd (sweep (g # dups) removed s))) = removed + length (feed_items s)"
    unfolding sw using c1 c2 by simp
  ultimately show ?case by blast
qed

lemma duplicate_groups_iff:
  "g \<in> set (duplicate_groups rows) \<longleftrightarrow>
     (\<exists>r\<in>set rows. 1 < length (fingerprint_group rows (item_fingerprint (snd r))) \<and>
        g = (item_fingerprint (snd r),
             length (fingerprint_group rows (item_fingerprint (snd r))),
             min_id (fingerprint_group rows (item_fingerprint (snd r)))))"
  by (auto simp: duplicate_groups_def)

lemma min_id_in:
  "rows \<noteq> [] \<Longrightarrow> min_id rows \<in> (\<lambda>r. item_id (snd r)) ` set rows"
proof -
  assume "rows \<noteq> []"
  then have ne: "map (\<lambda>r. item_id (snd r)) rows \<noteq> []" by simp
  then have "min_list (map (\<lambda>r. item_id (snd r)) rows) =
      Min (set (map (\<lambda>r. item_id (snd r)) rows))"
    by (rule min_list_Min)
  also have "\<dots> \<in> set (map (\<lambda>r. item_id (snd r)) rows)"
    using ne by (intro Min_in) simp_all
  finally show ?thesis by (simp add: min_id_def)
qed

lemma min_id_singleton: "min_id [r] = item_id (snd r)"
  by (simp add: min_id_def)

lemma survivor_iff:
  assumes "r \<in> set rows"
  shows "(\<forall>g\<in>set (duplicate_groups rows). \<not> is_loser (fst g) (snd (snd g)) r) \<longleftrightarrow>
         item_id (snd r) = min_id (fingerprint_group rows (item_fingerprint (snd r)))"
proof -
  let ?grp = "fingerprint_group rows (item_fingerprint (snd r))"
  have mem: "r \<in> set ?grp" using assms by (simp add: fingerprint_group_def)
  show ?thesis
  proof (cases "1 < length ?grp")
    case True
    with assms have "(item_fingerprint (snd r), length ?grp, min_id ?grp)
        \<in> set (duplicate_groups rows)"
      unfolding duplicate_groups_iff by blast
    moreover have "snd (snd g) = min_id ?grp"
      if "g \<in> set (duplicate_groups rows)" "fst g = item_fingerprint (snd r)" for g
    proof -
      from that(1) obtain q :: "nat \<times> FeedItem" where "g = (item_fingerprint (snd q),
             length (fingerprint_group rows (item_fingerprint (snd q))),
             min_id (fingerprint_group rows (item_fingerprint (snd q))))"
        unfolding duplicate_groups_iff by auto
      with that(2) show ?thesis by simp
    qed
    ultimately show ?thesis
    proof (intro iffI ballI)
      assume a: "\<forall>g\<in>set (duplicate_groups rows). \<not> is_loser (fst g) (snd (snd g)) r"
      assume "(item_fingerprint (snd r), length ?grp, min_id ?grp) \<in> set (duplicate_groups rows)"
      with a have "\<not> is_loser (item_fingerprint (snd r)) (min_id ?grp) r" by force
      then show "item_id (snd r) = min_id ?grp" by (simp add: is_loser_def)
    next
      fix g
      assume m: "item_id (snd r) = min_id ?grp" and g: "g \<in> set (duplicate_groups rows)"
      assume k: "\<And>g. g \<in> set (duplicate_groups rows) \<Longrightarrow>
          fst g = item_fingerprint (snd r) \<Longrightarrow> snd (snd g) = min_id ?grp"
      show "\<not> is_loser (fst g) (snd (snd g)) r"
      proof (cases "fst g = item_fingerprint (snd r)")
        case True
        from k [OF g True] m show ?thesis by (simp add: is_loser_def)
      next
        case False
        then show ?thesis by (auto simp: is_loser_def)
      qed
    qed
  next
    case False
    with mem have "length ?grp = 1" by (cases ?grp) auto
    with mem have "?grp = [r]" by (cases ?grp) auto
    then have m: "item_id (snd r) = min_id ?grp" by (simp add: min_id_singleton)
    have "\<forall>g\<in>set (duplicate_groups rows). fst g \<noteq> item_fingerprint (snd r)"
    proof (intro ballI notI)
      fix g assume "g \<in> set (duplicate_groups rows)" and e: "fst g = item_fingerprint (snd r)"
      then obtain q :: "nat \<times> FeedItem" where
        "1 < length (fingerprint_group rows (item_fingerprint (snd q)))"
        "fst g = item_fingerprint (snd q)"
        unfolding duplicate_groups_iff by auto
      with e False show False by simp
    qed
    then have "\<forall>g\<in>set (duplicate_groups rows). \<not> is_loser (fst g) (snd (snd g)) r"
      by (auto simp: is_loser_def)
    with m show ?thesis by blast
  qed
qed

lemma deduplicate_items:
  "feed_items (snd (deduplicate s)) =
     filter (\<lambda>r. item_id (snd r) =
               min_id (fingerprint_group (feed_items s) (item_fingerprint (snd r))))
            (feed_items s)"
proof -
  have "feed_items (snd (deduplicate s)) =
      filter (\<lambda>r. \<forall>g\<in>set (duplicate_groups (feed_items s)).
                \<not> is_loser (fst g) (snd (snd g)) r) (feed_items s)"
    unfolding deduplicate_def
    using sweep_items [of "duplicate_groups (feed_items s)" 0 s] by blast
  also have "\<dots> = filter (\<lambda>r. item_id (snd r) =
               min_id (fingerprint_group (feed_items s) (item_fingerprint (snd r))))
            (feed_items s)"
    by (rule filter_cong [OF refl]) (rule survivor_iff)
  finally show ?thesis .
qed

lemma filter_unique_key:
  "distinct (map f xs) \<Longrightarrow> x \<in> set xs \<Longrightarrow> filter (\<lambda>y. f y = f x) xs = [x]"
proof (induction xs)
  case Nil
  then show ?case by simp
next
  case (Cons a xs)
  show ?case
  proof (cases "a = x")
    case True
    with Cons.prems have "\<forall>y\<in>set xs. f y \<noteq> f x" by (auto simp: image_iff)
    then have "filter (\<lambda>y. f y = f x) xs = []" by (simp add: filter_empty_conv)
    with True show ?thesis by simp
  next
    case False
    with Cons.prems have "x \<in> set xs" "f a \<noteq> f x" by (auto simp: image_iff)
    with Cons show ?thesis by simp
  qed
qed

lemma one_survivor:
  assumes d: "distinct (map (\<lambda>r. item_id (snd r)) rows)" and r: "r \<in> set rows"
  shows "length (filter (\<lambda>q. item_fingerprint (snd q) = item_fingerprint (snd r))
           (filter (\<lambda>q. item_id (snd q) =
                      min_id (fingerprint_group rows (item_fingerprint (snd q)))) rows)) = 1"
proof -
  let ?fp = "item_fingerprint (snd r)"
  let ?m = "min_id (fingerprint_group rows ?fp)"
  from r have "fingerprint_group rows ?fp \<noteq> []"
    by (auto simp: fingerprint_group_def filter_empty_conv)
  from min_id_in [OF this] obtain q0 where
    q0: "q0 \<in> set rows" "item_fingerprint (snd q0) = ?fp" "item_id (snd q0) = ?m"
    by (auto simp: fingerprint_group_def)
  have "filter (\<lambda>q. item_fingerprint (snd q) = ?fp)
           (filter (\<lambda>q. item_id (snd q) =
                      min_id (fingerprint_group rows (item_fingerprint (snd q)))) rows) =
        filter (\<lambda>q. item_fingerprint (snd q) = ?fp)
           (filter (\<lambda>q. item_id (snd q) = item_id (snd q0)) rows)"
    unfolding filter_filter
  proof (rule filter_cong [OF refl])
    fix q :: "nat \<times> FeedItem"
    assume "q \<in> set rows"
    show "(item_id (snd q) = min_id (fingerprint_group rows (item_fingerprint (snd q))) \<and>
           item_fingerprint (snd q) = ?fp) =
          (item_id (snd q) = item_id (snd q0) \<and> item_fingerprint (snd q) = ?fp)"
      using q0(3) by (cases "item_fingerprint (snd q) = ?fp") simp_all
  qed
  also have "filter (\<lambda>q. item_id (snd q) = item_id (snd q0)) rows = [q0]"
    using d q0(1) by (rule filter_unique_key)
  finally show ?thesis using q0(2) by simp
qed

lemma min_id_le:
  "r \<in> set rows \<Longrightarrow> min_id rows \<le> item_id (snd r)"
proof -
  assume r: "r \<in> set rows"
  then have ne: "map (\<lambda>r. item_id (snd r)) rows \<noteq> []" by auto
  then have "min_list (map (\<lambda>r. item_id (snd r)) rows) =
      Min (set (map (\<lambda>r. item_id (snd r)) rows))"
    by (rule min_list_Min)
  also have "\<dots> \<le> item_id (snd r)"
    using r by (intro Min_le) simp_all
  finally show ?thesis by (simp add: min_id_def)
qed

text \<open>
  C7: on a database whose item ids are distinct, as the primary key makes them,
  \<^verbatim>\<open>deduplicate\<close> keeps exactly the rows whose id is the least among the rows with
  their fingerprint, unchanged and in their order. Afterwards every fingerprint that
  was stored is carried by exactly one row, whose id is no greater than that of any row
  that shared the fingerprint; a row whose fingerprint was its own alone stays; the
  number returned is the number of rows removed; the feeds are untouched.
\<close>

theorem deduplicate_sweeps:
  assumes "distinct (map (\<lambda>r. item_id (snd r)) (feed_items s))"
  shows "feed_items (snd (deduplicate s)) =
           filter (\<lambda>r. item_id (snd r) =
                     min_id (fingerprint_group (feed_items s) (item_fingerprint (snd r))))
                  (feed_items s) \<and>
         (\<forall>r\<in>set (feed_items s).
            length (fingerprint_group (feed_items (snd (deduplicate s)))
                      (item_fingerprint (snd r))) = 1) \<and>
         (\<forall>r\<in>set (feed_items (snd (deduplicate s))). \<forall>q\<in>set (feed_items s).
            item_fingerprint (snd q) = item_fingerprint (snd r) \<longrightarrow>
            item_id (snd r) \<le> item_id (snd q)) \<and>
         (\<forall>r\<in>set (feed_items s).
            length (fingerprint_group (feed_items s) (item_fingerprint (snd r))) = 1 \<longrightarrow>
            r \<in> set (feed_items (snd (deduplicate s)))) \<and>
         fst (deduplicate s) =
           length (feed_items s) - length (feed_items (snd (deduplicate s))) \<and>
         feeds (snd (deduplicate s)) = feeds s"
proof (intro conjI ballI impI)
  show "feed_items (snd (deduplicate s)) =
           filter (\<lambda>r. item_id (snd r) =
                     min_id (fingerprint_group (feed_items s) (item_fingerprint (snd r))))
                  (feed_items s)"
    by (rule deduplicate_items)
next
  fix r assume "r \<in> set (feed_items s)"
  from one_survivor [OF assms this]
  show "length (fingerprint_group (feed_items (snd (deduplicate s)))
                      (item_fingerprint (snd r))) = 1"
    by (simp add: deduplicate_items fingerprint_group_def)
next
  fix r q
  assume r: "r \<in> set (feed_items (snd (deduplicate s)))" and q: "q \<in> set (feed_items s)"
    and e: "item_fingerprint (snd q) = item_fingerprint (snd r)"
  from r have "item_id (snd r) =
      min_id (fingerprint_group (feed_items s) (item_fingerprint (snd r)))"
    by (simp add: deduplicate_items)
  moreover from q e have "q \<in> set (fingerprint_group (feed_items s) (item_fingerprint (snd r)))"
    by (simp add: fingerprint_group_def)
  ultimately show "item_id (snd r) \<le> item_id (snd q)"
    using min_id_le by metis
next
  fix r
  assume r: "r \<in> set (feed_items s)"
    and l: "length (fingerprint_group (feed_items s) (item_fingerprint (snd r))) = 1"
  let ?grp = "fingerprint_group (feed_items s) (item_fingerprint (snd r))"
  from r have "r \<in> set ?grp" by (simp add: fingerprint_group_def)
  with l have "?grp = [r]" by (cases ?grp) auto
  then have "item_id (snd r) = min_id ?grp" by (simp add: min_id_singleton)
  with r show "r \<in> set (feed_items (snd (deduplicate s)))"
    by (simp add: deduplicate_items)
next
  from sweep_items [of "duplicate_groups (feed_items s)" 0 s]
  have "fst (deduplicate s) + length (feed_items (snd (deduplicate s))) =
      0 + length (feed_items s)"
    unfolding deduplicate_def by (rule conjunct2)
  then show "fst (deduplicate s) =
           length (feed_items s) - length (feed_items (snd (deduplicate s)))"
    by arith
next
  show "feeds (snd (deduplicate s)) = feeds s" by (rule deduplicate_feeds)
qed

lemmas sweep_defs = deduplicate_def duplicate_groups_def fingerprint_group_def min_id_def
  delete_duplicates_def is_loser_def fts_of_def Let_def

theorem deduplicate_sweeps_witness:
  "fst (deduplicate imported_state) = 1 \<and>
   map (\<lambda>r. item_id (snd r)) (feed_items (snd (deduplicate imported_state))) = [''a'', ''c''] \<and>
   map fst (feed_items_fts (snd (deduplicate imported_state))) = [2, 3]"
proof -
  have d: "distinct (map (\<lambda>r. item_id (snd r)) (feed_items imported_state))"
    by (simp add: imported_state_def)
  have ids: "map (\<lambda>r. item_id (snd r)) (feed_items (snd (deduplicate imported_state))) =
      [''a'', ''c'']"
    by (simp add: imported_state_def sweep_defs)
  have fts: "map fst (feed_items_fts (snd (deduplicate imported_state))) = [2, 3]"
    by (simp add: imported_state_def sweep_defs)
  from deduplicate_sweeps [OF d]
  have "fst (deduplicate imported_state) =
      length (feed_items imported_state) - length (feed_items (snd (deduplicate imported_state)))"
    by blast
  moreover have "length (feed_items (snd (deduplicate imported_state))) = 2"
    using arg_cong [OF ids, of length] by simp
  moreover have "length (feed_items imported_state) = 3" by (simp add: imported_state_def)
  ultimately show ?thesis using ids fts by simp
qed

section \<open>The full-text table and search\<close>











lemma wf_state_feeds_cong:
  assumes "wf_state s" and "map feed_id fs = map feed_id (feeds s)"
    and "map feed_url fs = map feed_url (feeds s)"
  shows "wf_state (s\<lparr>feeds := fs\<rparr>)" and "wf_state (s\<lparr>feeds := fs, clock := c\<rparr>)"
  using assms by (simp_all add: wf_state_def)



























end
